theory Spec2Isabelle
  imports Main
begin

text \<open>
  The function \<open>preprocess\<close> of \<open>models/preprocessor.py\<close> turns an exported chat
  transcript into a table of messages.  This theory embeds it section by section:
  format detection, message extraction, date parsing, sender and body extraction, time
  components, time periods and validation.  The regular expressions of the source are
  run by a small backtracking matcher; the date library is a parameter.
\<close>

section \<open>Text\<close>

text \<open>
  A Python \<open>str\<close> is a sequence of Unicode code points.  The sender patterns of the
  preprocessor mention the en dash and the em dash, which lie outside the 8-bit
  characters of HOL, so a character is modelled by its code point, an integer as
  \<open>ord\<close> returns it.
\<close>

type_synonym pystr = "int list"

definition str :: "string \<Rightarrow> pystr" where
  "str cs = map of_char cs"

text \<open>
  \<open>str.isspace\<close> for one character, which is also what \<open>\<^verbatim>\<open>\s\<close>\<close> matches in a \<open>str\<close>
  pattern.
\<close>

definition is_space :: "int \<Rightarrow> bool" where
  "is_space c =
     (if c < 128 then (9 \<le> c \<and> c \<le> 13) \<or> (28 \<le> c \<and> c \<le> 32)
      else c = 133 \<or> c = 160 \<or> c = 5760 \<or> (8192 \<le> c \<and> c \<le> 8202) \<or> c = 8232
           \<or> c = 8233 \<or> c = 8239 \<or> c = 8287 \<or> c = 12288)"

text \<open>
  The decimal digits of Unicode (category Nd) come in runs of ten, each starting at
  its zero; \<open>\<^verbatim>\<open>\d\<close>\<close> matches all of them.
\<close>

definition nd_zeros :: "int list" where
  "nd_zeros =
     [1632, 1776, 1984, 2406, 2534, 2662, 2790, 2918, 3046, 3174, 3302, 3430, 3558,
      3664, 3792, 3872, 4160, 4240, 6112, 6160, 6470, 6608, 6784, 6800, 6992, 7088,
      7232, 7248, 42528, 43216, 43264, 43472, 43504, 43600, 44016, 65296, 66720,
      68912, 69734, 69872, 69942, 70096, 70384, 70736, 70864, 71248, 71360, 71472,
      71904, 72016, 72784, 73040, 73120, 73552, 92768, 92864, 93008, 120782, 120792,
      120802, 120812, 120822, 123200, 123632, 124144, 125264, 130032]"

definition digit_value :: "int \<Rightarrow> int option" where
  "digit_value c =
     (if c < 128 then (if 48 \<le> c \<and> c \<le> 57 then Some (c - 48) else None)
      else (case filter (\<lambda>z. z \<le> c \<and> c < z + 10) nd_zeros of
              [] \<Rightarrow> None
            | z # _ \<Rightarrow> Some (c - z)))"

definition is_digit :: "int \<Rightarrow> bool" where
  "is_digit c = (digit_value c \<noteq> None)"

text \<open>\<open>s.split(sep)\<close> for a one-character separator, and \<open>sep.join(parts)\<close>.\<close>

fun split_char :: "int \<Rightarrow> pystr \<Rightarrow> pystr list" where
  "split_char sep [] = [[]]"
| "split_char sep (c # cs) =
     (if c = sep then [] # split_char sep cs
      else (case split_char sep cs of
              [] \<Rightarrow> [[c]]
            | p # ps \<Rightarrow> (c # p) # ps))"

fun join :: "pystr \<Rightarrow> pystr list \<Rightarrow> pystr" where
  "join sep [] = []"
| "join sep [p] = p"
| "join sep (p # q # ps) = p @ sep @ join sep (q # ps)"

text \<open>\<open>s.split(sep, 1)\<close>: at most one cut, at the first occurrence of \<open>sep\<close>.\<close>

fun starts_with :: "pystr \<Rightarrow> pystr \<Rightarrow> bool" where
  "starts_with [] s = True"
| "starts_with (p # ps) [] = False"
| "starts_with (p # ps) (c # cs) = (p = c \<and> starts_with ps cs)"

fun split_once :: "pystr \<Rightarrow> pystr \<Rightarrow> pystr list" where
  "split_once sep [] = [[]]"
| "split_once sep (c # cs) =
     (if starts_with sep (c # cs) then [[], drop (length sep) (c # cs)]
      else (case split_once sep cs of
              [] \<Rightarrow> [[c]]
            | p # ps \<Rightarrow> (c # p) # ps))"

text \<open>\<open>s.strip()\<close>: leading and trailing whitespace removed.\<close>

definition strip :: "pystr \<Rightarrow> pystr" where
  "strip s = rev (dropWhile is_space (rev (dropWhile is_space s)))"

section \<open>Regular expressions\<close>

text \<open>
  The fragment of Python's \<open>re\<close> syntax that the preprocessor uses: character sets
  (possibly negated), concatenation, alternation, counted repetition (greedy or lazy,
  bounded or not), one kind of capturing group, and the start-of-text anchor.
\<close>

datatype citem =
    Lit int
  | Digit
  | Space
  | AnyChar

datatype regex =
    Eps
  | OneOf "citem list"
  | NoneOf "citem list"
  | Bol
  | Seq regex regex
  | Alt regex regex
  | Rep regex nat "nat option" bool
  | Grp regex

primrec in_item :: "citem \<Rightarrow> int \<Rightarrow> bool" where
  "in_item (Lit a) c = (c = a)"
| "in_item Digit c = is_digit c"
| "in_item Space c = is_space c"
| "in_item AnyChar c = True"

definition in_set :: "citem list \<Rightarrow> int \<Rightarrow> bool" where
  "in_set items c = list_ex (\<lambda>it. in_item it c) items"

text \<open>
  A backtracking matcher.  A match state holds the groups captured so far, the
  position reached and the text that remains.  Matching a pattern from a state gives
  the states in which it can end, in the order in which Python's engine explores
  them; the first one that lets the rest of the pattern succeed is the match.
\<close>

type_synonym mstate = "pystr list \<times> nat \<times> pystr"

text \<open>
  \<open>rep f greedy lo n\<close> repeats \<open>f\<close> at least \<open>lo\<close> and at most \<open>n\<close> times.  A greedy
  repetition prefers one more round to stopping, a lazy one the other way round.
\<close>

primrec rep :: "(mstate \<Rightarrow> mstate list) \<Rightarrow> bool \<Rightarrow> nat \<Rightarrow> nat \<Rightarrow> mstate \<Rightarrow> mstate list" where
  "rep f greedy lo 0 st = (if lo = 0 then [st] else [])"
| "rep f greedy lo (Suc n) st =
     (let more = concat (map (rep f greedy (lo - 1) n) (f st))
      in if 0 < lo then more else if greedy then more @ [st] else st # more)"

text \<open>
  An unbounded repetition gets as many rounds as there are characters left: every
  repeated sub-pattern of this program consumes at least one character per round.
\<close>

primrec ends :: "regex \<Rightarrow> mstate \<Rightarrow> mstate list" where
  "ends Eps st = [st]"
| "ends (OneOf items) st =
     (case st of (caps, i, s) \<Rightarrow>
        (case s of [] \<Rightarrow> [] | c # cs \<Rightarrow> if in_set items c then [(caps, i + 1, cs)] else []))"
| "ends (NoneOf items) st =
     (case st of (caps, i, s) \<Rightarrow>
        (case s of [] \<Rightarrow> [] | c # cs \<Rightarrow> if in_set items c then [] else [(caps, i + 1, cs)]))"
| "ends Bol st = (case st of (caps, i, s) \<Rightarrow> if i = 0 then [st] else [])"
| "ends (Seq r1 r2) st = concat (map (ends r2) (ends r1 st))"
| "ends (Alt r1 r2) st = ends r1 st @ ends r2 st"
| "ends (Rep r lo hi greedy) st =
     rep (ends r) greedy lo (case hi of None \<Rightarrow> length (snd (snd st)) | Some h \<Rightarrow> h) st"
| "ends (Grp r) st =
     (case st of (caps, i, s) \<Rightarrow>
        map (\<lambda>(caps', j, s'). (caps' @ [take (j - i) s], j, s')) (ends r st))"

text \<open>A match attempt at one position: the captured groups and the end position.\<close>

definition match_at :: "regex \<Rightarrow> nat \<Rightarrow> pystr \<Rightarrow> (pystr list \<times> nat) option" where
  "match_at r i s =
     (case ends r ([], i, s) of [] \<Rightarrow> None | (caps, j, s') # _ \<Rightarrow> Some (caps, j))"


text \<open>\<open>re.search\<close>: the leftmost position at which a match attempt succeeds.\<close>

fun search_from :: "regex \<Rightarrow> nat \<Rightarrow> pystr \<Rightarrow> (nat \<times> pystr list \<times> nat) option" where
  "search_from r i [] = map_option (\<lambda>cj. (i, cj)) (match_at r i [])"
| "search_from r i (c # cs) =
     (case match_at r i (c # cs) of
        Some cj \<Rightarrow> Some (i, cj)
      | None \<Rightarrow> search_from r (i + 1) cs)"

definition re_search :: "regex \<Rightarrow> pystr \<Rightarrow> bool" where
  "re_search r s = (search_from r 0 s \<noteq> None)"

text \<open>
  The successive non-overlapping matches, left to right, as \<open>re.finditer\<close> yields
  them: start, end and groups.  \<open>skip\<close> counts the characters still covered by the
  previous match.
\<close>

fun scan :: "regex \<Rightarrow> nat \<Rightarrow> nat \<Rightarrow> pystr \<Rightarrow> (nat \<times> nat \<times> pystr list) list" where
  "scan r skip i [] =
     (if skip = 0 then (case match_at r i [] of Some (caps, j) \<Rightarrow> [(i, j, caps)] | None \<Rightarrow> [])
      else [])"
| "scan r (Suc skip) i (c # cs) = scan r skip (i + 1) cs"
| "scan r 0 i (c # cs) =
     (case match_at r i (c # cs) of
        Some (caps, j) \<Rightarrow> (i, j, caps) # scan r (j - i - 1) (i + 1) cs
      | None \<Rightarrow> scan r 0 (i + 1) cs)"

definition finditer :: "regex \<Rightarrow> pystr \<Rightarrow> (nat \<times> nat \<times> pystr list) list" where
  "finditer r s = scan r 0 0 s"

definition slice :: "pystr \<Rightarrow> nat \<Rightarrow> nat \<Rightarrow> pystr" where
  "slice s i j = take (j - i) (drop i s)"

text \<open>\<open>re.findall\<close> for a pattern without groups: the matched texts.\<close>

definition re_findall :: "regex \<Rightarrow> pystr \<Rightarrow> pystr list" where
  "re_findall r s = map (\<lambda>(i, j, caps). slice s i j) (finditer r s)"

text \<open>
  \<open>re.split\<close>: the text between the matches, and after each cut the groups of the
  match that made it.
\<close>

fun pieces :: "pystr \<Rightarrow> nat \<Rightarrow> (nat \<times> nat \<times> pystr list) list \<Rightarrow> pystr list" where
  "pieces s e [] = [drop e s]"
| "pieces s e ((i, j, caps) # ms) = slice s e i # caps @ pieces s j ms"

definition re_split :: "regex \<Rightarrow> pystr \<Rightarrow> pystr list" where
  "re_split r s = pieces s 0 (finditer r s)"

text \<open>\<open>re.sub\<close> with a replacement that refers to no group.\<close>

fun replaced :: "pystr \<Rightarrow> pystr \<Rightarrow> nat \<Rightarrow> (nat \<times> nat \<times> pystr list) list \<Rightarrow> pystr" where
  "replaced repl s e [] = drop e s"
| "replaced repl s e ((i, j, caps) # ms) = slice s e i @ repl @ replaced repl s j ms"

definition re_sub :: "regex \<Rightarrow> pystr \<Rightarrow> pystr \<Rightarrow> pystr" where
  "re_sub r repl s = replaced repl s 0 (finditer r s)"


section \<open>The grammar catalog\<close>

definition chr :: "char \<Rightarrow> regex" where
  "chr c = OneOf [Lit (of_char c)]"

definition cls :: "string \<Rightarrow> citem list" where
  "cls cs = map Lit (str cs)"

definition seq :: "regex list \<Rightarrow> regex" where
  "seq rs = foldr Seq rs Eps"

definition lit :: "string \<Rightarrow> regex" where
  "lit cs = seq (map chr cs)"

definition digits :: "nat \<Rightarrow> nat \<Rightarrow> regex" where
  "digits lo hi = Rep (OneOf [Digit]) lo (Some hi) True"

definition ws :: regex where
  "ws = OneOf [Space]"

definition opt :: "regex \<Rightarrow> regex" where
  "opt r = Rep r 0 (Some 1) True"

text \<open>\<^verbatim>\<open>\d{1,2}/\d{1,2}/\d{2,4},\s\d{1,2}:\d{2}\s(?:AM|PM)\s-\s\<close>\<close>

definition pattern_12h_1 :: regex where
  "pattern_12h_1 =
     seq [digits 1 2, chr CHR ''/'', digits 1 2, chr CHR ''/'', digits 2 4, chr CHR '','', ws,
          digits 1 2, chr CHR '':'', digits 2 2, ws, Alt (lit ''AM'') (lit ''PM''), ws,
          chr CHR ''-'', ws]"

text \<open>\<^verbatim>\<open>\d{1,2}/\d{1,2}/\d{2,4}\s\d{1,2}:\d{2}\s(?:AM|PM)\s-\s\<close>\<close>

definition pattern_12h_2 :: regex where
  "pattern_12h_2 =
     seq [digits 1 2, chr CHR ''/'', digits 1 2, chr CHR ''/'', digits 2 4, ws,
          digits 1 2, chr CHR '':'', digits 2 2, ws, Alt (lit ''AM'') (lit ''PM''), ws,
          chr CHR ''-'', ws]"

text \<open>\<^verbatim>\<open>\d{1,2}/\d{1,2}/\d{2,4},\s\d{1,2}:\d{2}\s-\s\<close>\<close>

definition pattern_24h_1 :: regex where
  "pattern_24h_1 =
     seq [digits 1 2, chr CHR ''/'', digits 1 2, chr CHR ''/'', digits 2 4, chr CHR '','', ws,
          digits 1 2, chr CHR '':'', digits 2 2, ws, chr CHR ''-'', ws]"

text \<open>\<^verbatim>\<open>\d{1,2}/\d{1,2}/\d{2,4}\s\d{1,2}:\d{2}\s-\s\<close>\<close>

definition pattern_24h_2 :: regex where
  "pattern_24h_2 =
     seq [digits 1 2, chr CHR ''/'', digits 1 2, chr CHR ''/'', digits 2 4, ws,
          digits 1 2, chr CHR '':'', digits 2 2, ws, chr CHR ''-'', ws]"

text \<open>\<^verbatim>\<open>\[\d{1,2}/\d{1,2}/\d{2,4},\s\d{1,2}:\d{2}:\d{2}\]\s\<close>\<close>

definition pattern_24h_3 :: regex where
  "pattern_24h_3 =
     seq [chr CHR ''['', digits 1 2, chr CHR ''/'', digits 1 2, chr CHR ''/'', digits 2 4,
          chr CHR '','', ws, digits 1 2, chr CHR '':'', digits 2 2, chr CHR '':'', digits 2 2,
          chr CHR '']'', ws]"

text \<open>\<^verbatim>\<open>\d{1,2}/\d{1,2}/\d{4},\s\d{1,2}:\d{2}\s-\s\<close>\<close>

definition pattern_24h_4 :: regex where
  "pattern_24h_4 =
     seq [digits 1 2, chr CHR ''/'', digits 1 2, chr CHR ''/'', digits 4 4, chr CHR '','', ws,
          digits 1 2, chr CHR '':'', digits 2 2, ws, chr CHR ''-'', ws]"

text \<open>\<^verbatim>\<open>\d{4}-\d{2}-\d{2}\s\d{1,2}:\d{2}:\d{2}\s-\s\<close>\<close>

definition pattern_iso :: regex where
  "pattern_iso =
     seq [digits 4 4, chr CHR ''-'', digits 2 2, chr CHR ''-'', digits 2 2, ws,
          digits 1 2, chr CHR '':'', digits 2 2, chr CHR '':'', digits 2 2, ws,
          chr CHR ''-'', ws]"

text \<open>\<^verbatim>\<open>\d{1,2}\.\d{1,2}\.\d{2,4},\s\d{1,2}:\d{2}\s-\s\<close>\<close>

definition pattern_euro :: regex where
  "pattern_euro =
     seq [digits 1 2, chr CHR ''.'', digits 1 2, chr CHR ''.'', digits 2 4, chr CHR '','', ws,
          digits 1 2, chr CHR '':'', digits 2 2, ws, chr CHR ''-'', ws]"

type_synonym grammar = "regex \<times> pystr \<times> string"

definition date_patterns :: "grammar list" where
  "date_patterns =
     [(pattern_12h_1, str ''%m/%d/%y, %I:%M %p - '', ''US 12h comma''),
      (pattern_12h_1, str ''%d/%m/%y, %I:%M %p - '', ''UK 12h comma''),
      (pattern_12h_2, str ''%m/%d/%y %I:%M %p - '', ''US 12h no comma''),
      (pattern_12h_2, str ''%d/%m/%y %I:%M %p - '', ''UK 12h no comma''),
      (pattern_24h_1, str ''%m/%d/%y, %H:%M - '', ''US 24h comma''),
      (pattern_24h_1, str ''%d/%m/%y, %H:%M - '', ''UK 24h comma''),
      (pattern_24h_1, str ''%d/%m/%Y, %H:%M - '', ''UK 24h comma full year''),
      (pattern_24h_2, str ''%m/%d/%y %H:%M - '', ''US 24h no comma''),
      (pattern_24h_2, str ''%d/%m/%y %H:%M - '', ''UK 24h no comma''),
      (pattern_24h_3, str ''[%m/%d/%y, %H:%M:%S] '', ''Bracketed with seconds''),
      (pattern_24h_4, str ''%d/%m/%Y, %H:%M - '', ''DD/MM/YYYY format''),
      (pattern_iso, str ''%Y-%m-%d %H:%M:%S - '', ''ISO format''),
      (pattern_euro, str ''%d.%m.%y, %H:%M - '', ''European format'')]"

text \<open>
  The permissive pattern of the fallback extraction:
  \<^verbatim>\<open>[\[\(]?(?:\d{1,4}[\/\.-]){2}\d{1,4}(?:[,\s])+\d{1,2}:\d{1,2}(?::\d{1,2})?(?:\s*[aApP][mM])?[\]\)]?\s*[^\n]+\<close>
\<close>

definition generic_pattern :: regex where
  "generic_pattern =
     seq [opt (OneOf (cls ''[('')),
          Rep (seq [digits 1 4, OneOf (cls ''/.-'')]) 2 (Some 2) True,
          digits 1 4,
          Rep (OneOf [Lit (of_char CHR '',''), Space]) 1 None True,
          digits 1 2, chr CHR '':'', digits 1 2,
          opt (seq [chr CHR '':'', digits 1 2]),
          opt (seq [Rep ws 0 None True, OneOf (cls ''aApP''), OneOf (cls ''mM'')]),
          opt (OneOf (cls ''])'')),
          Rep ws 0 None True,
          Rep (NoneOf [Lit 10]) 1 None True]"

text \<open>
  The sender patterns \<^verbatim>\<open>([\w\W]+?):\s\<close> and \<^verbatim>\<open>([\w\W]+?)\s[-\<close>en dash, em dash\<^verbatim>\<open>]\s\<close>;
  the set \<^verbatim>\<open>[\w\W]\<close> admits every character.  The phone prefix is \<^verbatim>\<open>^\+\d+\s\<close>.
\<close>

definition lazy_name :: regex where
  "lazy_name = Grp (Rep (OneOf [AnyChar]) 1 None False)"

definition user_pattern :: regex where
  "user_pattern = seq [lazy_name, chr CHR '':'', ws]"

definition alt_pattern :: regex where
  "alt_pattern = seq [lazy_name, ws, OneOf [Lit 45, Lit 8211, Lit 8212], ws]"

definition phone_pattern :: regex where
  "phone_pattern = seq [Bol, chr CHR ''+'', Rep (OneOf [Digit]) 1 None True, ws]"


section \<open>Timestamps and the date library\<close>

record timestamp =
  ts_year :: int
  ts_month :: int
  ts_day :: int
  ts_hour :: int
  ts_minute :: int
  ts_second :: int

datatype exn = ValueError | TypeError | OtherException

text \<open>
  The preprocessor calls the date library in two ways.  With a format the library
  parses a fragment strictly and raises when the fragment does not fit
  (\<open>None\<close> here); a column parses when each of its fragments does.  Without a format
  and with \<open>errors='coerce'\<close> it interprets the column flexibly, yields a null
  (\<open>None\<close>) for a row it cannot interpret, and may itself raise.  The theorems below
  hold for every behaviour of the two entry points, which are therefore parameters.
\<close>

record library =
  strptime :: "pystr \<Rightarrow> pystr \<Rightarrow> timestamp option"
  to_datetime_coerce :: "pystr list \<Rightarrow> exn + (nat \<Rightarrow> timestamp option)"

definition to_datetime :: "library \<Rightarrow> pystr \<Rightarrow> pystr list \<Rightarrow> timestamp list option" where
  "to_datetime lib fmt col = those (map (strptime lib fmt) col)"

subsection \<open>A model of the strict parser\<close>

text \<open>
  The strict parser turns a format into a regular expression, one group per
  directive, matches it at the start of the fragment, requires the match to cover
  the whole fragment, and converts the groups.  Only the directives of the catalog
  are modelled.
\<close>

definition directive_regex :: "int \<Rightarrow> regex option" where
  "directive_regex d =
     (if d = of_char CHR ''d'' then
        Some (Alt (seq [chr CHR ''3'', OneOf (cls ''01'')])
             (Alt (seq [OneOf (cls ''12''), OneOf [Digit]])
             (Alt (seq [chr CHR ''0'', OneOf (cls ''123456789'')])
             (Alt (OneOf (cls ''123456789''))
                  (seq [chr CHR '' '', OneOf (cls ''123456789'')])))))
      else if d = of_char CHR ''m'' \<or> d = of_char CHR ''I'' then
        Some (Alt (seq [chr CHR ''1'', OneOf (cls ''012'')])
             (Alt (seq [chr CHR ''0'', OneOf (cls ''123456789'')])
                  (OneOf (cls ''123456789''))))
      else if d = of_char CHR ''y'' then Some (Rep (OneOf [Digit]) 2 (Some 2) True)
      else if d = of_char CHR ''Y'' then Some (Rep (OneOf [Digit]) 4 (Some 4) True)
      else if d = of_char CHR ''H'' then
        Some (Alt (seq [chr CHR ''2'', OneOf (cls ''0123'')])
             (Alt (seq [OneOf (cls ''01''), OneOf [Digit]])
                  (OneOf [Digit])))
      else if d = of_char CHR ''M'' then
        Some (Alt (seq [OneOf (cls ''012345''), OneOf [Digit]]) (OneOf [Digit]))
      else if d = of_char CHR ''S'' then
        Some (Alt (seq [chr CHR ''6'', OneOf (cls ''01'')])
             (Alt (seq [OneOf (cls ''012345''), OneOf [Digit]])
                  (OneOf [Digit])))
      else if d = of_char CHR ''p'' then
        Some (Alt (seq [OneOf (cls ''aA''), OneOf (cls ''mM'')])
                  (seq [OneOf (cls ''pP''), OneOf (cls ''mM'')]))
      else None)"

text \<open>Literal characters of a format match without regard to case.\<close>

definition literal_regex :: "int \<Rightarrow> regex" where
  "literal_regex c =
     (if 65 \<le> c \<and> c \<le> 90 then OneOf [Lit c, Lit (c + 32)]
      else if 97 \<le> c \<and> c \<le> 122 then OneOf [Lit c, Lit (c - 32)]
      else OneOf [Lit c])"

fun format_regex :: "pystr \<Rightarrow> (regex \<times> int list) option" where
  "format_regex [] = Some (Eps, [])"
| "format_regex [c] =
     (if c = of_char CHR ''%'' then None
      else if is_space c then Some (Rep ws 1 None True, [])
      else Some (literal_regex c, []))"
| "format_regex (c # d # cs) =
     (if c = of_char CHR ''%'' then
        (case (directive_regex d, format_regex cs) of
           (Some r, Some (rest, ds)) \<Rightarrow> Some (Seq (Grp r) rest, d # ds)
         | _ \<Rightarrow> None)
      else
        (case format_regex (d # cs) of
           None \<Rightarrow> None
         | Some (rest, ds) \<Rightarrow>
             if is_space c then
               (if is_space d then Some (rest, ds) else Some (Seq (Rep ws 1 None True) rest, ds))
             else Some (Seq (literal_regex c) rest, ds)))"

text \<open>\<open>int(text)\<close> for a group of decimal digits, possibly after a blank.\<close>

definition int_of :: "pystr \<Rightarrow> int" where
  "int_of s = foldl (\<lambda>acc c. case digit_value c of Some v \<Rightarrow> 10 * acc + v | None \<Rightarrow> acc) 0 s"

definition is_leap :: "int \<Rightarrow> bool" where
  "is_leap y = (y mod 4 = 0 \<and> (y mod 100 \<noteq> 0 \<or> y mod 400 = 0))"

definition days_in_month :: "int \<Rightarrow> int \<Rightarrow> int" where
  "days_in_month y mo =
     (if mo = 2 then (if is_leap y then 29 else 28)
      else if mo = 4 \<or> mo = 6 \<or> mo = 9 \<or> mo = 11 then 30 else 31)"

definition field :: "(int \<times> pystr) list \<Rightarrow> char \<Rightarrow> pystr option" where
  "field groups d = map_of groups (of_char d)"

definition number :: "(int \<times> pystr) list \<Rightarrow> char \<Rightarrow> int \<Rightarrow> int" where
  "number groups d dflt = (case field groups d of None \<Rightarrow> dflt | Some t \<Rightarrow> int_of t)"

text \<open>
  A two-digit year up to 68 lies in this century, otherwise in the last one.  An
  hour of the twelve-hour clock is read with its \<open>AM\<close> or \<open>PM\<close> mark.  Timestamps are
  kept with nanosecond resolution in 64 bits, which bounds the years; the two years
  that are only partly covered, 1677 and 2262, are left out here.
\<close>

definition build_timestamp :: "(int \<times> pystr) list \<Rightarrow> timestamp option" where
  "build_timestamp groups =
     (let y = (case field groups CHR ''Y'' of
                 Some t \<Rightarrow> int_of t
               | None \<Rightarrow>
                   (case field groups CHR ''y'' of
                      Some t \<Rightarrow> (if int_of t \<le> 68 then 2000 + int_of t else 1900 + int_of t)
                    | None \<Rightarrow> 1900));
          mo = number groups CHR ''m'' 1;
          d = number groups CHR ''d'' 1;
          pm = (case field groups CHR ''p'' of
                  Some t \<Rightarrow> t \<noteq> [] \<and> (hd t = of_char CHR ''p'' \<or> hd t = of_char CHR ''P'')
                | None \<Rightarrow> False);
          h = (case field groups CHR ''I'' of
                 Some t \<Rightarrow>
                   (if pm then (if int_of t = 12 then 12 else int_of t + 12)
                    else (if int_of t = 12 then 0 else int_of t))
               | None \<Rightarrow> number groups CHR ''H'' 0);
          mi = number groups CHR ''M'' 0;
          sec = number groups CHR ''S'' 0
      in if days_in_month y mo < d \<or> 59 < sec \<or> y < 1678 \<or> 2261 < y then None
         else Some \<lparr>ts_year = y, ts_month = mo, ts_day = d, ts_hour = h, ts_minute = mi,
                    ts_second = sec\<rparr>)"

definition strptime_model :: "pystr \<Rightarrow> pystr \<Rightarrow> timestamp option" where
  "strptime_model fmt s =
     (case format_regex fmt of
        None \<Rightarrow> None
      | Some (r, ds) \<Rightarrow>
          if \<not> distinct ds then None
          else (case match_at r 0 s of
                  None \<Rightarrow> None
                | Some (caps, j) \<Rightarrow>
                    if j \<noteq> length s then None else build_timestamp (zip ds caps)))"

text \<open>
  Two behaviours of the flexible interpreter, to run the pipeline on examples: one
  that recognises no fragment, and one that reads each fragment with the first
  template of the catalog that fits it.  In every example below that returns a
  dataset the strict parser reads the whole column, so that the flexible interpreter
  is not asked.
\<close>

definition coerce_none :: "pystr list \<Rightarrow> exn + (nat \<Rightarrow> timestamp option)" where
  "coerce_none col = Inr (\<lambda>k. None)"

fun first_template :: "grammar list \<Rightarrow> pystr \<Rightarrow> timestamp option" where
  "first_template [] s = None"
| "first_template ((p, fmt, nm) # gs) s =
     (case strptime_model fmt s of Some t \<Rightarrow> Some t | None \<Rightarrow> first_template gs s)"

definition coerce_catalog :: "pystr list \<Rightarrow> exn + (nat \<Rightarrow> timestamp option)" where
  "coerce_catalog col =
     Inr (\<lambda>k. if k < length col then first_template date_patterns (col ! k) else None)"

definition strict_library :: library where
  "strict_library = \<lparr>strptime = strptime_model, to_datetime_coerce = coerce_none\<rparr>"

definition lenient_library :: library where
  "lenient_library = \<lparr>strptime = strptime_model, to_datetime_coerce = coerce_catalog\<rparr>"


section \<open>The preprocessor\<close>

text \<open>
  What the preprocessor shows to the user through the dashboard: a warning, a success
  note, or an error.
\<close>

datatype notice =
    Warning_format_not_recognized
  | Success_chat_uploaded
  | Error_no_messages_extracted
  | Error_could_not_parse_dates exn
  | Error_failed_to_parse_dates
  | Error_too_few_messages
  | Error_processing exn
  | Error_detailed exn

subsection \<open>Format detection\<close>

definition sample_data :: "pystr \<Rightarrow> pystr" where
  "sample_data data = join [10] (take 10 (split_char 10 data))"

fun detect :: "grammar list \<Rightarrow> pystr \<Rightarrow> grammar option" where
  "detect [] sample = None"
| "detect ((pattern, date_format, pattern_name) # rest) sample =
     (if re_search pattern sample then Some (pattern, date_format, pattern_name)
      else detect rest sample)"

definition detect_format :: "pystr \<Rightarrow> notice list \<times> grammar" where
  "detect_format data =
     (case detect date_patterns (sample_data data) of
        None \<Rightarrow>
          ([Warning_format_not_recognized],
           (pattern_12h_1, str ''%m/%d/%y, %I:%M %p - '', ''Generic fallback''))
      | Some g \<Rightarrow> ([Success_chat_uploaded], g))"

subsection \<open>Message extraction\<close>

text \<open>
  The loop over the blocks of the fallback extraction; it returns the dates and the
  messages.
\<close>

fun block_parts :: "pystr list \<Rightarrow> pystr list \<times> pystr list" where
  "block_parts [] = ([], [])"
| "block_parts (block # blocks) =
     (let parts = split_once (str '' - '') block;
          (dates, messages) = block_parts blocks
      in if length parts = 2 then ((parts ! 0 @ str '' - '') # dates, (parts ! 1) # messages)
         else (dates, messages))"

definition extract_messages :: "regex \<Rightarrow> pystr \<Rightarrow> notice list \<times> (pystr list \<times> pystr list) option" where
  "extract_messages detected_pattern data =
     (let messages = tl (re_split detected_pattern data);
          dates = re_findall detected_pattern data
      in if messages = [] \<or> dates = [] then
           (let message_blocks = re_findall generic_pattern data
            in if message_blocks = [] then ([Error_no_messages_extracted], None)
               else (case block_parts message_blocks of
                       (dates', messages') \<Rightarrow>
                         ([Error_no_messages_extracted], Some (messages', dates'))))
         else ([], Some (messages, dates)))"

subsection \<open>The initial frame\<close>

record raw_row =
  user_message :: pystr
  message_date :: pystr

text \<open>The frame constructor raises when its columns differ in length.\<close>

definition data_frame :: "pystr list \<Rightarrow> pystr list \<Rightarrow> exn + raw_row list" where
  "data_frame messages dates =
     (if length messages \<noteq> length dates then Inl ValueError
      else Inr (map (\<lambda>(um, md). \<lparr>user_message = um, message_date = md\<rparr>) (zip messages dates)))"

subsection \<open>Date parsing\<close>

text \<open>The loop over the catalog: the first format with which the column parses.\<close>

fun try_formats :: "library \<Rightarrow> grammar list \<Rightarrow> pystr list \<Rightarrow> timestamp list option" where
  "try_formats lib [] col = None"
| "try_formats lib ((pattern, date_format, pattern_name) # rest) col =
     (case to_datetime lib date_format col of
        Some ds \<Rightarrow> Some ds
      | None \<Rightarrow> try_formats lib rest col)"

type_synonym dated_row = "raw_row \<times> timestamp option"

definition dropna_date :: "dated_row list \<Rightarrow> dated_row list" where
  "dropna_date df = filter (\<lambda>(r, d). d \<noteq> None) df"

definition parse_dates :: "library \<Rightarrow> raw_row list \<Rightarrow> notice list \<times> dated_row list option" where
  "parse_dates lib df =
     (let col = map message_date df in
      case try_formats lib date_patterns col of
        Some ds \<Rightarrow>
          (if length df = 0 then ([Error_failed_to_parse_dates], None)
           else ([], Some (zip df (map Some ds))))
      | None \<Rightarrow>
          (case to_datetime_coerce lib col of
             Inl e \<Rightarrow> ([Error_could_not_parse_dates e], None)
           | Inr parsed \<Rightarrow>
               (let df' = dropna_date (zip df (map parsed [0..<length df]));
                    successful_parse = (0 < length df')
                in if \<not> successful_parse \<or> length df' = 0
                   then ([Error_failed_to_parse_dates], None)
                   else ([], Some df'))))"

subsection \<open>Sender and body\<close>

definition group_notification :: pystr where
  "group_notification = str ''group_notification''"

definition extract_user :: "pystr \<Rightarrow> pystr \<times> pystr" where
  "extract_user msg =
     (let entry = re_split user_pattern msg in
      if tl entry \<noteq> [] then (entry ! 1, join (str '' '') (drop 2 entry))
      else
        (let alt_entry = re_split alt_pattern msg in
         if 1 < length alt_entry then (alt_entry ! 1, join (str '' '') (drop 2 alt_entry))
         else (group_notification, strip msg)))"

definition strip_phone :: "pystr \<Rightarrow> pystr" where
  "strip_phone x = re_sub phone_pattern [] x"

subsection \<open>Time components\<close>

definition month_names :: "string list" where
  "month_names =
     [''January'', ''February'', ''March'', ''April'', ''May'', ''June'', ''July'',
      ''August'', ''September'', ''October'', ''November'', ''December'']"

definition weekday_names :: "string list" where
  "weekday_names =
     [''Monday'', ''Tuesday'', ''Wednesday'', ''Thursday'', ''Friday'', ''Saturday'',
      ''Sunday'']"

definition month_name :: "timestamp \<Rightarrow> pystr" where
  "month_name t = (case drop (nat (ts_month t - 1)) month_names of [] \<Rightarrow> [] | n # _ \<Rightarrow> str n)"

text \<open>Days since 1 January 1970, a Thursday.\<close>

definition days_from_civil :: "int \<Rightarrow> int \<Rightarrow> int \<Rightarrow> int" where
  "days_from_civil y mo d =
     (let y' = (if mo \<le> 2 then y - 1 else y);
          era = y' div 400;
          yoe = y' - era * 400;
          doy = (153 * (if 2 < mo then mo - 3 else mo + 9) + 2) div 5 + d - 1;
          doe = yoe * 365 + yoe div 4 - yoe div 100 + doy
      in era * 146097 + doe - 719468)"

definition day_name_of :: "timestamp \<Rightarrow> pystr" where
  "day_name_of t =
     (case drop (nat ((days_from_civil (ts_year t) (ts_month t) (ts_day t) + 3) mod 7))
             weekday_names of
        [] \<Rightarrow> []
      | n # _ \<Rightarrow> str n)"

definition strftime_p :: "timestamp \<Rightarrow> pystr" where
  "strftime_p t = (if ts_hour t < 12 then str ''AM'' else str ''PM'')"

text \<open>\<open>str(n)\<close> for an integer, as an f-string prints it.\<close>

fun decimal :: "nat \<Rightarrow> pystr" where
  "decimal n = (if n < 10 then [48 + int n] else decimal (n div 10) @ [48 + int (n mod 10)])"

definition fmt_int :: "int \<Rightarrow> pystr" where
  "fmt_int n = (if n < 0 then 45 # decimal (nat (- n)) else decimal (nat n))"

subsection \<open>Time period\<close>

definition period_of :: "int \<Rightarrow> pystr" where
  "period_of hour =
     (if hour = 11 then fmt_int hour @ str ''AM-12PM''
      else if hour = 23 then fmt_int (hour - 12) @ str ''PM-12AM''
      else if hour = 0 then str ''12AM-1AM''
      else if hour = 12 then str ''12PM-1PM''
      else if hour < 11 then fmt_int hour @ str ''AM-'' @ fmt_int (hour + 1) @ str ''AM''
      else fmt_int (hour - 12) @ str ''PM-'' @ fmt_int (hour - 11) @ str ''PM'')"

subsection \<open>The finished frame\<close>

text \<open>
  A cell of the frame may be null; the columns derived from a null date are null.
\<close>

record chat_row =
  date :: "timestamp option"
  user :: pystr
  message :: "pystr option"
  only_date :: "(int \<times> int \<times> int) option"
  year :: "int option"
  month_num :: "int option"
  month :: "pystr option"
  day :: "int option"
  day_name :: "pystr option"
  hour :: "int option"
  minute :: "int option"
  am_pm :: "pystr option"
  period :: "pystr option"

definition build_row :: "dated_row \<Rightarrow> chat_row" where
  "build_row rd =
     (case rd of (r, d) \<Rightarrow>
        (case extract_user (user_message r) of (u, body) \<Rightarrow>
           \<lparr>date = d,
            user = strip_phone u,
            message = Some body,
            only_date = map_option (\<lambda>t. (ts_year t, ts_month t, ts_day t)) d,
            year = map_option ts_year d,
            month_num = map_option ts_month d,
            month = map_option month_name d,
            day = map_option ts_day d,
            day_name = map_option day_name_of d,
            hour = map_option ts_hour d,
            minute = map_option ts_minute d,
            am_pm = map_option strftime_p d,
            period = map_option (\<lambda>t. period_of (ts_hour t)) d\<rparr>))"

subsection \<open>Validation\<close>

definition dropna :: "chat_row list \<Rightarrow> chat_row list" where
  "dropna df = filter (\<lambda>r. date r \<noteq> None \<and> message r \<noteq> None) df"

definition validate :: "chat_row list \<Rightarrow> notice list \<times> chat_row list option" where
  "validate df =
     (let df' = dropna df in
      if length df' < 2 then ([Error_too_few_messages], None) else ([], Some df'))"

subsection \<open>The whole function\<close>

text \<open>
  The body of the \<open>try\<close> block up to the time periods: what it shows, and either
  the exception it raises or the value it has reached (\<open>None\<close> where it has already
  returned the failure signal).
\<close>

definition build_frame :: "library \<Rightarrow> pystr \<Rightarrow> notice list \<times> (exn + chat_row list option)" where
  "build_frame lib data =
     (case detect_format data of
        (shown1, (detected_pattern, detected_format, detected_name)) \<Rightarrow>
     (case extract_messages detected_pattern data of
        (shown2, None) \<Rightarrow> (shown1 @ shown2, Inr None)
      | (shown2, Some (messages, dates)) \<Rightarrow>
     (case data_frame messages dates of
        Inl e \<Rightarrow> (shown1 @ shown2, Inl e)
      | Inr df \<Rightarrow>
     (case parse_dates lib df of
        (shown3, None) \<Rightarrow> (shown1 @ shown2 @ shown3, Inr None)
      | (shown3, Some dated) \<Rightarrow> (shown1 @ shown2 @ shown3, Inr (Some (map build_row dated)))))))"

text \<open>The body with its last section, the validation.\<close>

definition preprocess_body :: "library \<Rightarrow> pystr \<Rightarrow> notice list \<times> (exn + chat_row list option)" where
  "preprocess_body lib data =
     (case build_frame lib data of
        (shown, Inr (Some df)) \<Rightarrow>
          (case validate df of (shown', result) \<Rightarrow> (shown @ shown', Inr result))
      | (shown, Inr None) \<Rightarrow> (shown, Inr None)
      | (shown, Inl e) \<Rightarrow> (shown, Inl e))"

text \<open>
  The handler \<open>except Exception\<close> around the body: whatever the body raises, the
  handler shows two errors and returns the failure signal.
\<close>

definition except_Exception ::
  "notice list \<times> (exn + chat_row list option) \<Rightarrow> notice list \<times> (exn + chat_row list option)" where
  "except_Exception outcome =
     (case outcome of
        (shown, Inl e) \<Rightarrow> (shown @ [Error_processing e, Error_detailed e], Inr None)
      | (shown, Inr result) \<Rightarrow> (shown, Inr result))"

definition preprocess :: "library \<Rightarrow> pystr \<Rightarrow> notice list \<times> (exn + chat_row list option)" where
  "preprocess lib data = except_Exception (preprocess_body lib data)"

text \<open>The dataset that a call returned, if it returned one.\<close>

definition dataset :: "notice list \<times> (exn + chat_row list option) \<Rightarrow> chat_row list option" where
  "dataset outcome = (case snd outcome of Inr (Some df) \<Rightarrow> Some df | _ \<Rightarrow> None)"

text \<open>
  The rows of the initial frame, the one that the function builds from the extracted
  messages and their timestamp texts before it parses any date; no rows where the
  function has returned or raised before that point.
\<close>

definition extracted_rows :: "pystr \<Rightarrow> raw_row list" where
  "extracted_rows data =
     (case extract_messages (fst (snd (detect_format data))) data of
        (shown, None) \<Rightarrow> []
      | (shown, Some (messages, dates)) \<Rightarrow>
          (case data_frame messages dates of Inl e \<Rightarrow> [] | Inr df \<Rightarrow> df))"

section \<open>The specification's vocabulary\<close>

text \<open>
  The period table of the specification, in its own order of cases.
\<close>

definition period_bucket :: "int \<Rightarrow> pystr" where
  "period_bucket h =
     (if h = 0 then str ''12AM-1AM''
      else if h = 11 then str ''11AM-12PM''
      else if h = 12 then str ''12PM-1PM''
      else if h = 23 then str ''11PM-12AM''
      else if h < 11 then fmt_int h @ str ''AM-'' @ fmt_int (h + 1) @ str ''AM''
      else fmt_int (h - 12) @ str ''PM-'' @ fmt_int (h - 11) @ str ''PM'')"

text \<open>
  A colon followed by whitespace at index \<open>k\<close> of a message; whitespace, a dash and
  whitespace at index \<open>k\<close>.
\<close>

definition colon_at :: "pystr \<Rightarrow> nat \<Rightarrow> bool" where
  "colon_at s k = (k + 1 < length s \<and> s ! k = 58 \<and> is_space (s ! (k + 1)))"

definition dash_at :: "pystr \<Rightarrow> nat \<Rightarrow> bool" where
  "dash_at s k =
     (k + 2 < length s \<and> is_space (s ! k)
      \<and> (s ! (k + 1) = 45 \<or> s ! (k + 1) = 8211 \<or> s ! (k + 1) = 8212)
      \<and> is_space (s ! (k + 2)))"

text \<open>
  The length of a phone prefix at the start of a sender: a plus sign, the digits that
  follow it, and one whitespace character.
\<close>

definition phone_prefix :: "pystr \<Rightarrow> nat option" where
  "phone_prefix s =
     (case s of
        [] \<Rightarrow> None
      | c # cs \<Rightarrow>
          if c = 43 \<and> takeWhile is_digit cs \<noteq> [] then
            (case dropWhile is_digit cs of
               [] \<Rightarrow> None
             | w # _ \<Rightarrow> if is_space w then Some (length (takeWhile is_digit cs) + 2) else None)
          else None)"


section \<open>Example transcripts\<close>

definition chat_one :: pystr where
  "chat_one = str ''1/5/23, 1:15 AM - A: x''"

definition chat_two :: pystr where
  "chat_two = str ''1/5/23, 1:15 AM - A: x'' @ [10] @ str ''1/5/23, 1:16 PM - B: y''"


definition row_a :: raw_row where
  "row_a = \<lparr>user_message = str ''A: x'' @ [10], message_date = str ''1/5/23, 1:15 AM - ''\<rparr>"

definition row_b :: raw_row where
  "row_b = \<lparr>user_message = str ''B: y'', message_date = str ''1/5/23, 1:16 PM - ''\<rparr>"

definition row_c :: raw_row where
  "row_c = \<lparr>user_message = str ''C: z'', message_date = str ''13/5/23, 14:15 - ''\<rparr>"

definition row_d :: raw_row where
  "row_d = \<lparr>user_message = str ''D: w'', message_date = str ''someday - ''\<rparr>"

definition stamp :: "int \<Rightarrow> int \<Rightarrow> int \<Rightarrow> int \<Rightarrow> int \<Rightarrow> timestamp" where
  "stamp y mo d h mi =
     \<lparr>ts_year = y, ts_month = mo, ts_day = d, ts_hour = h, ts_minute = mi, ts_second = 0\<rparr>"

text \<open>Transcripts whose first sender carries a phone prefix, and one whose last body is empty.\<close>

definition chat_phone :: pystr where
  "chat_phone = str ''1/5/23, 1:15 AM - +1 555 1234 Alice: hi'' @ [10] @ str ''1/5/23, 1:16 PM - B: y''"

definition chat_phone_only :: pystr where
  "chat_phone_only = str ''1/5/23, 1:15 AM - +123 : hi'' @ [10] @ str ''1/5/23, 1:16 PM - B: y''"

definition chat_empty_body :: pystr where
  "chat_empty_body = str ''1/5/23, 1:15 AM - A: x'' @ [10] @ str ''1/5/23, 1:16 PM - B: ''"

text \<open>
  Transcripts in no format of the catalog: one that the permissive pattern finds and
  that has a dash delimiter, one that it finds and that has none, and one that it does
  not find.
\<close>

definition chat_dashed :: pystr where
  "chat_dashed = str ''5-1-2023 10:15 - hello: x''"

definition chat_bracketed :: pystr where
  "chat_bracketed = str ''(2023-1-5 10:15) hello''"

definition chat_plain :: pystr where
  "chat_plain = str ''hello''"

definition row_p :: raw_row where
  "row_p = \<lparr>user_message = str ''+123 : hi'' @ [10], message_date = str ''1/5/23, 1:15 AM - ''\<rparr>"

text \<open>A transcript whose first line is a notification of the group.\<close>

definition chat_notice :: pystr where
  "chat_notice = str ''1/5/23, 1:15 AM - A joined'' @ [10] @ str ''1/5/23, 1:16 PM - B: y''"

definition row_n :: raw_row where
  "row_n = \<lparr>user_message = str ''A joined'' @ [10], message_date = str ''1/5/23, 1:15 AM - ''\<rparr>"

section \<open>Format detection\<close>





section \<open>Date parsing\<close>

lemma try_formats_find:
  "try_formats lib gs col =
     (case find (\<lambda>(p, f, n). to_datetime lib f col \<noteq> None) gs of
        None \<Rightarrow> None
      | Some (p, f, n) \<Rightarrow> to_datetime lib f col)"
  by (induction lib gs col rule: try_formats.induct) (auto split: option.splits)

lemma those_Some_iff: "those xs = Some ys \<longleftrightarrow> xs = map Some ys"
  by (induction xs arbitrary: ys) (auto split: option.splits)

lemma those_None_iff: "those xs = None \<longleftrightarrow> None \<in> set xs"
  by (induction xs) (auto split: option.splits)

lemma to_datetime_parses:
  "to_datetime lib fmt (map message_date df) \<noteq> None
     \<longleftrightarrow> (\<forall>r\<in>set df. strptime lib fmt (message_date r) \<noteq> None)"
proof -
  have "to_datetime lib fmt (map message_date df) \<noteq> None
          \<longleftrightarrow> None \<notin> set (map (strptime lib fmt) (map message_date df))"
    by (simp only: to_datetime_def those_None_iff)
  also have "\<dots> \<longleftrightarrow> (\<forall>r\<in>set df. strptime lib fmt (message_date r) \<noteq> None)"
    by (induction df) auto
  finally show ?thesis .
qed

lemma to_datetime_rows:
  assumes "to_datetime lib fmt (map message_date df) = Some ds"
  shows "zip df (map Some ds) = map (\<lambda>r. (r, strptime lib fmt (message_date r))) df"
proof -
  from assms have "map (strptime lib fmt) (map message_date df) = map Some ds"
    by (simp add: to_datetime_def those_Some_iff)
  then have "zip df (map Some ds) = zip df (map (\<lambda>r. strptime lib fmt (message_date r)) df)"
    by (simp add: comp_def)
  also have "\<dots> = map (\<lambda>r. (r, strptime lib fmt (message_date r))) df"
    by (induction df) auto
  finally show ?thesis .
qed

text \<open>
  Claim C2.  The date parser goes through the templates of the whole catalog in
  order; the first template with which every fragment of the column parses gives the
  dates.  When there is none, the flexible interpreter is asked; the rows it leaves
  null are dropped.  Parsing fails, with an error shown, when no row is left (and
  when the flexible interpreter raises).
\<close>

theorem date_parsing:
  "parse_dates lib df =
     (case find (\<lambda>(pattern, date_format, pattern_name).
                   \<forall>r\<in>set df. strptime lib date_format (message_date r) \<noteq> None) date_patterns of
        Some (pattern, date_format, pattern_name) \<Rightarrow>
          if df = [] then ([Error_failed_to_parse_dates], None)
          else ([], Some (map (\<lambda>r. (r, strptime lib date_format (message_date r))) df))
      | None \<Rightarrow>
          (case to_datetime_coerce lib (map message_date df) of
             Inl e \<Rightarrow> ([Error_could_not_parse_dates e], None)
           | Inr parsed \<Rightarrow>
               (let kept = filter (\<lambda>(r, d). d \<noteq> None) (zip df (map parsed [0..<length df]))
                in if kept = [] then ([Error_failed_to_parse_dates], None) else ([], Some kept))))"
proof -
  let ?col = "map message_date df"
  let ?P = "\<lambda>(pattern, date_format, pattern_name). to_datetime lib date_format ?col \<noteq> None"
  let ?Q = "\<lambda>(pattern, date_format, pattern_name).
              \<forall>r\<in>set df. strptime lib date_format (message_date r) \<noteq> None"
  have PQ: "?P = ?Q"
    by (rule ext) (simp only: case_prod_beta to_datetime_parses)
  show ?thesis
  proof (cases "find ?P date_patterns")
    case None
    then have "try_formats lib date_patterns ?col = None"
      by (simp add: try_formats_find)
    with None show ?thesis
      unfolding PQ[symmetric]
      by (simp add: parse_dates_def dropna_date_def Let_def split: sum.splits)
  next
    case (Some g)
    obtain p f n where g: "g = (p, f, n)" by (cases g) auto
    from Some have "?P g" by (auto simp: find_Some_iff)
    then obtain ds where ds: "to_datetime lib f ?col = Some ds" by (auto simp: g)
    with Some have "try_formats lib date_patterns ?col = Some ds"
      by (simp add: try_formats_find g)
    with Some ds show ?thesis
      unfolding PQ[symmetric]
      by (simp add: parse_dates_def g to_datetime_rows)
  qed
qed

theorem date_parsing_witness:
  "parse_dates strict_library [row_a, row_b]
     = ([], Some [(row_a, Some (stamp 2023 1 5 1 15)), (row_b, Some (stamp 2023 1 5 13 16))])
   \<and> parse_dates lenient_library [row_a, row_c, row_d]
     = ([], Some [(row_a, Some (stamp 2023 1 5 1 15)), (row_c, Some (stamp 2023 5 13 14 15))])
   \<and> parse_dates strict_library [row_a, row_c, row_d] = ([Error_failed_to_parse_dates], None)
   \<and> parse_dates strict_library [] = ([Error_failed_to_parse_dates], None)"
proof -
  have a: "parse_dates strict_library [row_a, row_b]
     = ([], Some [(row_a, Some (stamp 2023 1 5 1 15)), (row_b, Some (stamp 2023 1 5 13 16))])"
    by (rule trans[OF date_parsing]) code_simp
  have b: "parse_dates lenient_library [row_a, row_c, row_d]
     = ([], Some [(row_a, Some (stamp 2023 1 5 1 15)), (row_c, Some (stamp 2023 5 13 14 15))])"
    by (rule trans[OF date_parsing]) code_simp
  have c: "parse_dates strict_library [row_a, row_c, row_d] = ([Error_failed_to_parse_dates], None)"
    by (rule trans[OF date_parsing]) code_simp
  have d: "parse_dates strict_library [] = ([Error_failed_to_parse_dates], None)"
    by (rule trans[OF date_parsing]) code_simp
  from a b c d show ?thesis by blast
qed

section \<open>Time periods\<close>

text \<open>
  Claim C4.  The period label computed by the preprocessor is the one of the
  specification's table for every hour, and the labels of the hours 0 to 23 are the
  twenty-four listed here.
\<close>

theorem period_bucket_table:
  "(\<forall>h. period_of h = period_bucket h)
   \<and> map period_of [0..23] =
       map str [''12AM-1AM'', ''1AM-2AM'', ''2AM-3AM'', ''3AM-4AM'', ''4AM-5AM'', ''5AM-6AM'',
                ''6AM-7AM'', ''7AM-8AM'', ''8AM-9AM'', ''9AM-10AM'', ''10AM-11AM'',
                ''11AM-12PM'', ''12PM-1PM'', ''1PM-2PM'', ''2PM-3PM'', ''3PM-4PM'',
                ''4PM-5PM'', ''5PM-6PM'', ''6PM-7PM'', ''7PM-8PM'', ''8PM-9PM'',
                ''9PM-10PM'', ''10PM-11PM'', ''11PM-12AM'']"
proof
  show "\<forall>h. period_of h = period_bucket h"
    by (simp add: period_of_def period_bucket_def fmt_int_def str_def)
next
  show "map period_of [0..23] =
       map str [''12AM-1AM'', ''1AM-2AM'', ''2AM-3AM'', ''3AM-4AM'', ''4AM-5AM'', ''5AM-6AM'',
                ''6AM-7AM'', ''7AM-8AM'', ''8AM-9AM'', ''9AM-10AM'', ''10AM-11AM'',
                ''11AM-12PM'', ''12PM-1PM'', ''1PM-2PM'', ''2PM-3PM'', ''3PM-4PM'',
                ''4PM-5PM'', ''5PM-6PM'', ''6PM-7PM'', ''7PM-8PM'', ''8PM-9PM'',
                ''9PM-10PM'', ''10PM-11PM'', ''11PM-12AM'']"
    by code_simp
qed

theorem period_bucket_table_witness:
  "period_bucket 14 = str ''2PM-3PM'' \<and> period_bucket 23 = str ''11PM-12AM''"
proof -
  have a: "period_of 14 = str ''2PM-3PM''" by code_simp
  have b: "period_of 23 = str ''11PM-12AM''" by code_simp
  from period_bucket_table a b show ?thesis by simp
qed

section \<open>The entry point\<close>

lemma validate_length:
  "validate df = (shown, Some df') \<Longrightarrow> 2 \<le> length df' \<and> df' = dropna df \<and> shown = []"
  by (auto simp: validate_def Let_def split: if_splits)

lemma preprocess_Some:
  assumes "preprocess lib data = (shown, Inr (Some df'))"
  shows "\<exists>df. build_frame lib data = (shown, Inr (Some df)) \<and> df' = dropna df \<and> 2 \<le> length df'"
proof -
  obtain s r where bf: "build_frame lib data = (s, r)" by (cases "build_frame lib data") auto
  show ?thesis
  proof (cases r)
    case (Inl e)
    with bf assms show ?thesis
      by (simp add: preprocess_def preprocess_body_def except_Exception_def)
  next
    case (Inr result)
    show ?thesis
    proof (cases result)
      case None
      with Inr bf assms show ?thesis
        by (simp add: preprocess_def preprocess_body_def except_Exception_def)
    next
      case (Some df)
      obtain s' r' where v: "validate df = (s', r')" by (cases "validate df") auto
      with Some Inr bf assms have r': "r' = Some df'" and sh: "shown = s @ s'"
        by (simp_all add: preprocess_def preprocess_body_def except_Exception_def)
      from v r' have "validate df = (s', Some df')" by simp
      from validate_length[OF this] have "2 \<le> length df'" "df' = dropna df" "s' = []"
        by blast+
      with sh Some Inr bf show ?thesis by simp
    qed
  qed
qed

text \<open>
  Claim C5.  When exactly one row of the frame survives the removal of null rows, the
  entry point shows the error about too few messages and returns the failure signal;
  when exactly two survive, it returns them; and a dataset that is returned has at
  least two rows.
\<close>

theorem minimum_viable_data:
  "(build_frame lib data = (shown, Inr (Some df)) \<and> length (dropna df) = 1
      \<longrightarrow> preprocess lib data = (shown @ [Error_too_few_messages], Inr None))
   \<and> (build_frame lib data = (shown, Inr (Some df)) \<and> length (dropna df) = 2
      \<longrightarrow> preprocess lib data = (shown, Inr (Some (dropna df))))
   \<and> (preprocess lib data = (shown', Inr (Some df')) \<longrightarrow> 2 \<le> length df')"
  using preprocess_Some[of lib data shown' df']
  by (auto simp: preprocess_def preprocess_body_def except_Exception_def validate_def)

theorem minimum_viable_data_witness:
  "preprocess strict_library chat_one = ([Success_chat_uploaded, Error_too_few_messages], Inr None)
   \<and> preprocess strict_library chat_two
       = ([Success_chat_uploaded],
          Inr (Some (map build_row [(row_a, Some (stamp 2023 1 5 1 15)),
                                    (row_b, Some (stamp 2023 1 5 13 16))])))"
proof -
  let ?one = "map build_row
                [(\<lparr>user_message = str ''A: x'', message_date = str ''1/5/23, 1:15 AM - ''\<rparr>,
                  Some (stamp 2023 1 5 1 15))]"
  let ?two = "map build_row [(row_a, Some (stamp 2023 1 5 1 15)),
                             (row_b, Some (stamp 2023 1 5 13 16))]"
  have f1: "build_frame strict_library chat_one = ([Success_chat_uploaded], Inr (Some ?one))"
    by code_simp
  have l1: "length (dropna ?one) = 1" by code_simp
  have f2: "build_frame strict_library chat_two = ([Success_chat_uploaded], Inr (Some ?two))"
    by code_simp
  have l2: "length (dropna ?two) = 2" by code_simp
  have d2: "dropna ?two = ?two" by code_simp
  from minimum_viable_data[of strict_library chat_one "[Success_chat_uploaded]" ?one] f1 l1
  have a: "preprocess strict_library chat_one = ([Success_chat_uploaded, Error_too_few_messages], Inr None)"
    by simp
  from minimum_viable_data[of strict_library chat_two "[Success_chat_uploaded]" ?two] f2 l2
  have "preprocess strict_library chat_two = ([Success_chat_uploaded], Inr (Some (dropna ?two)))"
    by blast
  with d2 have b: "preprocess strict_library chat_two = ([Success_chat_uploaded], Inr (Some ?two))"
    by simp
  from a b show ?thesis by blast
qed

section \<open>Lemmas on matching\<close>

lemma in_set_any [simp]: "in_set [AnyChar] c"
  by (simp add: in_set_def)

lemma upt_0_Suc_Suc: "[0..<Suc (Suc n)] = 0 # map Suc [0..<Suc n]"
  by (simp only: map_Suc_upt upt_conv_Cons[of 0 "Suc (Suc n)"] zero_less_Suc)

lemma rep_lazy_any:
  "length s \<le> n \<Longrightarrow>
   rep (ends (OneOf [AnyChar])) False 0 n (caps, i, s)
     = map (\<lambda>k. (caps, i + k, drop k s)) [0..<Suc (length s)]"
proof (induction n arbitrary: i s)
  case 0
  then show ?case by simp
next
  case (Suc n)
  show ?case
  proof (cases s)
    case Nil
    then show ?thesis by simp
  next
    case (Cons c cs)
    with Suc.prems have len: "length cs \<le> n" by simp
    have "rep (ends (OneOf [AnyChar])) False 0 (Suc n) (caps, i, c # cs)
            = (caps, i, c # cs) # rep (ends (OneOf [AnyChar])) False 0 n (caps, i + 1, cs)"
      by simp
    also have "\<dots> = (caps, i, c # cs) # map (\<lambda>k. (caps, i + 1 + k, drop k cs)) [0..<Suc (length cs)]"
      by (simp only: Suc.IH[OF len])
    also have "\<dots> = map (\<lambda>k. (caps, i + k, drop k (c # cs))) (0 # map Suc [0..<Suc (length cs)])"
      by (simp add: comp_def del: upt_Suc)
    also have "0 # map Suc [0..<Suc (length cs)] = [0..<Suc (length (c # cs))]"
      by (simp only: upt_0_Suc_Suc length_Cons)
    finally show ?thesis by (simp only: Cons)
  qed
qed

lemma ends_lazy_name:
  "ends lazy_name (caps, i, s)
     = map (\<lambda>k. (caps @ [take k s], i + k, drop k s)) [1..<Suc (length s)]"
proof (cases s)
  case Nil
  then show ?thesis by (simp add: lazy_name_def)
next
  case (Cons c cs)
  have "ends lazy_name (caps, i, c # cs)
          = map (\<lambda>(caps', j, s'). (caps' @ [take (j - i) (c # cs)], j, s'))
              (rep (ends (OneOf [AnyChar])) False 0 (length cs) (caps, i + 1, cs))"
    by (simp add: lazy_name_def)
  also have "\<dots> = map (\<lambda>k. (caps @ [take k (c # cs)], i + k, drop k (c # cs)))
                      (map Suc [0..<Suc (length cs)])"
    by (simp add: rep_lazy_any comp_def del: upt_Suc)
  also have "map Suc [0..<Suc (length cs)] = [1..<Suc (length (c # cs))]"
    by (simp only: map_Suc_upt One_nat_def length_Cons)
  finally show ?thesis by (simp only: Cons)
qed


lemma concat_map_if:
  "concat (map (\<lambda>k. if P k then [f k] else []) xs) = map f (filter P xs)"
  by (induction xs) auto

lemma match_lazy:
  assumes D: "\<And>caps j t. ends D (caps, j, t) = (if dl t then [(caps, j + n, drop n t)] else [])"
  shows "match_at (Seq lazy_name D) i s =
           (case filter (\<lambda>k. dl (drop k s)) [1..<Suc (length s)] of
              [] \<Rightarrow> None
            | k # _ \<Rightarrow> Some ([take k s], i + k + n))"
proof -
  have "ends (Seq lazy_name D) ([], i, s)
          = concat (map (\<lambda>k. if dl (drop k s) then [([take k s], i + k + n, drop n (drop k s))] else [])
                     [1..<Suc (length s)])"
    by (simp add: ends_lazy_name D comp_def del: upt_Suc)
  also have "\<dots> = map (\<lambda>k. ([take k s], i + k + n, drop n (drop k s)))
                      (filter (\<lambda>k. dl (drop k s)) [1..<Suc (length s)])"
    by (rule concat_map_if)
  finally show ?thesis
    by (simp add: match_at_def split: list.splits del: upt_Suc)
qed

lemma filter_upt_first:
  assumes "1 \<le> k" "k \<le> m" "P k" "\<And>j. 1 \<le> j \<Longrightarrow> j < k \<Longrightarrow> \<not> P j"
  shows "filter P [1..<Suc m] = k # filter P [Suc k..<Suc m]"
proof -
  have "[1..<k + (Suc m - k)] = [1..<k] @ [k..<k + (Suc m - k)]"
    using assms(1) by (rule upt_add_eq_append)
  moreover have "k + (Suc m - k) = Suc m" using assms(2) by simp
  moreover have "[k..<Suc m] = k # [Suc k..<Suc m]"
    using assms(2) by (simp add: upt_conv_Cons)
  ultimately have "[1..<Suc m] = [1..<k] @ k # [Suc k..<Suc m]"
    by simp
  moreover have "filter P [1..<k] = []"
    using assms(4) by (auto simp: filter_empty_conv)
  ultimately show ?thesis using assms(3) by (simp del: upt_Suc)
qed

lemma filter_upt_none:
  assumes "\<And>j. 1 \<le> j \<Longrightarrow> \<not> P j"
  shows "filter P [1..<m] = []"
  using assms by (auto simp: filter_empty_conv)

lemma scan_no_match:
  "(\<And>p. sk \<le> p \<Longrightarrow> p \<le> length s \<Longrightarrow> match_at r (i + p) (drop p s) = None)
     \<Longrightarrow> scan r sk i s = []"
proof (induction r sk i s rule: scan.induct)
  case (1 r skip i)
  show ?case
  proof (cases skip)
    case 0
    with "1.prems"[of 0] have "match_at r i [] = None" by simp
    then show ?thesis by simp
  next
    case (Suc k)
    then show ?thesis by simp
  qed
next
  case (2 r skip i c cs)
  have "scan r skip (i + 1) cs = []"
  proof (rule "2.IH")
    fix p assume "skip \<le> p" "p \<le> length cs"
    then show "match_at r (i + 1 + p) (drop p cs) = None"
      using "2.prems"[of "Suc p"] by simp
  qed
  then show ?case by simp
next
  case (3 r i c cs)
  have m0: "match_at r i (c # cs) = None"
    using "3.prems"[of 0] by simp
  have "scan r 0 (i + 1) cs = []"
  proof (rule "3.IH"(1)[OF m0])
    fix p assume "0 \<le> p" "p \<le> length cs"
    then show "match_at r (i + 1 + p) (drop p cs) = None"
      using "3.prems"[of "Suc p"] by simp
  qed
  with m0 show ?case by simp
qed

lemma scan_single:
  assumes m0: "match_at r 0 s = Some (caps, j)" and j: "1 \<le> j"
    and rest: "\<And>p. j \<le> p \<Longrightarrow> p \<le> length s \<Longrightarrow> match_at r p (drop p s) = None"
    and ne: "s \<noteq> []"
  shows "scan r 0 0 s = [(0, j, caps)]"
proof -
  from ne obtain c cs where s: "s = c # cs" by (cases s) auto
  have "scan r (j - 0 - 1) (0 + 1) cs = []"
  proof (rule scan_no_match)
    fix p assume "j - 0 - 1 \<le> p" "p \<le> length cs"
    with j have "j \<le> Suc p" "Suc p \<le> length s" by (simp_all add: s)
    from rest[OF this] show "match_at r (0 + 1 + p) (drop p cs) = None"
      by (simp add: s)
  qed
  with m0 show ?thesis by (simp add: s)
qed


lemma split_lazy_first:
  assumes M: "\<And>i t. match_at r i t =
                 (case filter (at t) [1..<Suc (length t)] of
                    [] \<Rightarrow> None
                  | k # _ \<Rightarrow> Some ([take k t], i + k + n))"
    and shift: "\<And>a b t. at (drop a t) b = at t (a + b)"
    and bound: "\<And>t k. at t k \<Longrightarrow> k + n \<le> length t"
    and k: "1 \<le> k" "at s k" "\<And>j. 1 \<le> j \<Longrightarrow> j < k \<Longrightarrow> \<not> at s j"
    and rest: "\<And>j. 1 \<le> j \<Longrightarrow> \<not> at (drop (k + n) s) j"
  shows "re_split r s = [[], take k s, drop (k + n) s]"
proof -
  from bound[OF k(2)] k(1) have len: "k \<le> length s" and ne: "s \<noteq> []" by auto
  have "filter (at s) [1..<Suc (length s)] = k # filter (at s) [Suc k..<Suc (length s)]"
    using k len by (intro filter_upt_first) auto
  then have m0: "match_at r 0 s = Some ([take k s], k + n)"
    by (simp add: M del: upt_Suc)
  have later: "match_at r p (drop p s) = None" if "k + n \<le> p" "p \<le> length s" for p
  proof -
    have "\<not> at (drop p s) j" if "1 \<le> j" for j
    proof -
      have "at (drop p s) j = at s (p + j)" by (rule shift)
      also have "p + j = (k + n) + (p - (k + n) + j)" using \<open>k + n \<le> p\<close> by simp
      also have "at s \<dots> = at (drop (k + n) s) (p - (k + n) + j)" by (rule shift[symmetric])
      finally show ?thesis using rest[of "p - (k + n) + j"] that by simp
    qed
    then have "filter (at (drop p s)) [1..<Suc (length (drop p s))] = []"
      by (intro filter_upt_none) auto
    then show ?thesis by (simp add: M del: upt_Suc)
  qed
  have "scan r 0 0 s = [(0, k + n, [take k s])]"
    using m0 k(1) later ne by (intro scan_single) auto
  then show ?thesis by (simp add: re_split_def finditer_def slice_def)
qed

lemma split_lazy_none:
  assumes M: "\<And>i t. match_at r i t =
                 (case filter (at t) [1..<Suc (length t)] of
                    [] \<Rightarrow> None
                  | k # _ \<Rightarrow> Some ([take k t], i + k + n))"
    and shift: "\<And>a b t. at (drop a t) b = at t (a + b)"
    and none: "\<And>j. 1 \<le> j \<Longrightarrow> \<not> at s j"
  shows "re_split r s = [s]"
proof -
  have nm: "match_at r (0 + p) (drop p s) = None" for p
  proof -
    have "\<not> at (drop p s) j" if "1 \<le> j" for j
      using none[of "p + j"] that by (simp add: shift)
    then have "filter (at (drop p s)) [1..<Suc (length (drop p s))] = []"
      by (intro filter_upt_none) auto
    then show ?thesis by (simp add: M del: upt_Suc)
  qed
  have "scan r 0 0 s = []"
  proof (rule scan_no_match)
    fix p show "match_at r (0 + p) (drop p s) = None" by (rule nm)
  qed
  then show ?thesis by (simp only: re_split_def finditer_def pieces.simps drop_0)
qed

lemma split_lazy_sender:
  assumes M: "\<And>i t. match_at r i t =
                 (case filter (at t) [1..<Suc (length t)] of
                    [] \<Rightarrow> None
                  | k # _ \<Rightarrow> Some ([take k t], i + k + n))"
    and bound: "\<And>t k. at t k \<Longrightarrow> k + n \<le> length t"
    and k: "1 \<le> k" "at s k" "\<And>j. 1 \<le> j \<Longrightarrow> j < k \<Longrightarrow> \<not> at s j"
  shows "\<exists>rest. re_split r s = [] # take k s # rest"
proof -
  from bound[OF k(2)] k(1) have len: "k \<le> length s" and ne: "s \<noteq> []" by auto
  from ne obtain c cs where s: "s = c # cs" by (cases s) auto
  have "filter (at s) [1..<Suc (length s)] = k # filter (at s) [Suc k..<Suc (length s)]"
    using k len by (intro filter_upt_first) auto
  then have m0: "match_at r 0 s = Some ([take k s], k + n)"
    by (simp add: M del: upt_Suc)
  then have "scan r 0 0 (c # cs) = (0, k + n, [take k s]) # scan r (k + n - 0 - 1) (0 + 1) cs"
    by (simp add: s)
  then have "re_split r s
               = slice s 0 0 # [take k s] @ pieces s (k + n) (scan r (k + n - 0 - 1) (0 + 1) cs)"
    by (simp add: re_split_def finditer_def s)
  then show ?thesis by (simp add: slice_def)
qed

lemma scan_elem:
  "(i, j, caps) \<in> set (scan r sk i0 s) \<Longrightarrow> \<exists>i' t. match_at r i' t = Some (caps, j)"
proof (induction r sk i0 s rule: scan.induct)
  case (1 r skip i0)
  show ?case
  proof (cases "match_at r i0 []")
    case None
    then have "scan r skip i0 [] = []" by simp
    with "1.prems" show ?thesis by (simp del: scan.simps)
  next
    case (Some cj)
    obtain caps' j' where cj: "cj = (caps', j')" by (cases cj) auto
    have "scan r skip i0 [] = [] \<or> scan r skip i0 [] = [(i0, j', caps')]"
      by (simp add: Some cj)
    with "1.prems" Some cj have "match_at r i0 [] = Some (caps, j)"
      by (auto simp del: scan.simps)
    then show ?thesis by blast
  qed
next
  case (2 r skip i0 c cs)
  from "2.prems" have "(i, j, caps) \<in> set (scan r skip (i0 + 1) cs)" by simp
  then show ?case by (rule "2.IH")
next
  case (3 r i0 c cs)
  show ?case
  proof (cases "match_at r i0 (c # cs)")
    case None
    with "3.prems" have "(i, j, caps) \<in> set (scan r 0 (i0 + 1) cs)" by simp
    then show ?thesis by (rule "3.IH"(1)[OF None])
  next
    case (Some cj)
    obtain caps' j' where cj: "cj = (caps', j')" by (cases cj) auto
    from "3.prems" Some cj
    consider "(i, j, caps) = (i0, j', caps')" | "(i, j, caps) \<in> set (scan r (j' - i0 - 1) (i0 + 1) cs)"
      by auto
    then show ?thesis
    proof cases
      case 1
      with Some cj have "match_at r i0 (c # cs) = Some (caps, j)" by simp
      then show ?thesis by blast
    next
      case 2
      then show ?thesis
        by (rule "3.IH"(2)[OF Some cj[symmetric]])
    qed
  qed
qed

lemma split_lazy_group:
  assumes M: "\<And>i t. match_at r i t =
                 (case filter (at t) [1..<Suc (length t)] of
                    [] \<Rightarrow> None
                  | k # _ \<Rightarrow> Some ([take k t], i + k + n))"
    and more: "tl (re_split r s) \<noteq> []"
  shows "re_split r s ! 1 \<noteq> []"
proof -
  have grp: "\<exists>g. caps = [g] \<and> g \<noteq> []" if mt: "match_at r i t = Some (caps, j)" for i t caps j
  proof (cases "filter (at t) [1..<Suc (length t)]")
    case Nil
    have "match_at r i t = None" by (simp only: M Nil list.case)
    with mt show ?thesis by simp
  next
    case (Cons k ks)
    then have "k \<in> set (filter (at t) [1..<Suc (length t)])" by (simp only: list.set_intros)
    then have "1 \<le> k \<and> k \<le> length t" by (simp del: upt_Suc)
    then have ne: "take k t \<noteq> []" by auto
    have "match_at r i t = Some ([take k t], i + k + n)" by (simp only: M Cons list.case)
    with mt have "caps = [take k t]" by simp
    with ne show ?thesis by blast
  qed
  show ?thesis
  proof (cases "scan r 0 0 s")
    case Nil
    with more show ?thesis by (simp add: re_split_def finditer_def)
  next
    case (Cons x xs)
    obtain i j caps where x: "x = (i, j, caps)" by (cases x) auto
    have "(i, j, caps) \<in> set (scan r 0 0 s)" by (simp add: Cons x)
    from scan_elem[OF this] obtain i' t where "match_at r i' t = Some (caps, j)" by blast
    from grp[OF this] obtain g where "caps = [g]" "g \<noteq> []" by blast
    then show ?thesis by (simp add: re_split_def finditer_def Cons x)
  qed
qed


lemma colon_at_0:
  "colon_at t 0 \<longleftrightarrow> (\<exists>b rest. t = 58 # b # rest \<and> is_space b)"
proof (cases t)
  case Nil
  then show ?thesis by (simp add: colon_at_def)
next
  case (Cons a u)
  then show ?thesis by (cases u) (auto simp: colon_at_def)
qed

lemma dash_at_0:
  "dash_at t 0 \<longleftrightarrow>
     (\<exists>a b c rest. t = a # b # c # rest \<and> is_space a \<and> (b = 45 \<or> b = 8211 \<or> b = 8212) \<and> is_space c)"
proof (cases t)
  case Nil
  then show ?thesis by (simp add: dash_at_def)
next
  case (Cons a u)
  show ?thesis
  proof (cases u)
    case Nil
    with Cons show ?thesis by (simp add: dash_at_def)
  next
    case (Cons b v)
    with \<open>t = a # u\<close> show ?thesis by (cases v) (auto simp: dash_at_def)
  qed
qed

lemma ends_colon:
  "ends (Seq (chr CHR '':'') (Seq ws Eps)) (caps, j, t)
     = (if colon_at t 0 then [(caps, j + 2, drop 2 t)] else [])"
proof (cases t)
  case Nil
  then show ?thesis by (simp add: chr_def ws_def colon_at_0)
next
  case (Cons a u)
  then show ?thesis
    by (cases u) (auto simp: chr_def ws_def colon_at_0 in_set_def)
qed

lemma ends_dash:
  "ends (Seq ws (Seq (OneOf [Lit 45, Lit 8211, Lit 8212]) (Seq ws Eps))) (caps, j, t)
     = (if dash_at t 0 then [(caps, j + 3, drop 3 t)] else [])"
proof (cases t)
  case Nil
  then show ?thesis by (simp add: ws_def dash_at_0)
next
  case (Cons a u)
  show ?thesis
  proof (cases u)
    case Nil
    with Cons show ?thesis by (simp add: ws_def dash_at_0 in_set_def)
  next
    case (Cons b v)
    with \<open>t = a # u\<close> show ?thesis
      by (cases v) (auto simp: ws_def dash_at_0 in_set_def)
  qed
qed

lemma colon_at_drop: "colon_at (drop a t) b = colon_at t (a + b)"
  by (auto simp: colon_at_def add.assoc)

lemma dash_at_drop: "dash_at (drop a t) b = dash_at t (a + b)"
  by (auto simp: dash_at_def add.assoc)

lemma match_user:
  "match_at user_pattern i t =
     (case filter (colon_at t) [1..<Suc (length t)] of
        [] \<Rightarrow> None
      | k # _ \<Rightarrow> Some ([take k t], i + k + 2))"
proof -
  have p: "user_pattern = Seq lazy_name (Seq (chr CHR '':'') (Seq ws Eps))"
    by (simp add: user_pattern_def seq_def)
  have "match_at (Seq lazy_name (Seq (chr CHR '':'') (Seq ws Eps))) i t =
          (case filter (\<lambda>k. colon_at (drop k t) 0) [1..<Suc (length t)] of
             [] \<Rightarrow> None
           | k # _ \<Rightarrow> Some ([take k t], i + k + 2))"
    by (rule match_lazy) (rule ends_colon)
  then show ?thesis by (simp only: p colon_at_drop add_0_right)
qed

lemma match_alt:
  "match_at alt_pattern i t =
     (case filter (dash_at t) [1..<Suc (length t)] of
        [] \<Rightarrow> None
      | k # _ \<Rightarrow> Some ([take k t], i + k + 3))"
proof -
  have p: "alt_pattern = Seq lazy_name (Seq ws (Seq (OneOf [Lit 45, Lit 8211, Lit 8212]) (Seq ws Eps)))"
    by (simp add: alt_pattern_def seq_def)
  have "match_at (Seq lazy_name (Seq ws (Seq (OneOf [Lit 45, Lit 8211, Lit 8212]) (Seq ws Eps)))) i t =
          (case filter (\<lambda>k. dash_at (drop k t) 0) [1..<Suc (length t)] of
             [] \<Rightarrow> None
           | k # _ \<Rightarrow> Some ([take k t], i + k + 3))"
    by (rule match_lazy) (rule ends_dash)
  then show ?thesis by (simp only: p dash_at_drop add_0_right)
qed

lemma colon_at_bound: "colon_at t k \<Longrightarrow> k + 2 \<le> length t"
  by (simp add: colon_at_def)

lemma dash_at_bound: "dash_at t k \<Longrightarrow> k + 3 \<le> length t"
  by (simp add: dash_at_def)

lemma group_notification_nonempty: "group_notification \<noteq> []"
  by (simp add: group_notification_def str_def)

lemma extract_user_nonempty: "fst (extract_user msg) \<noteq> []"
proof (cases "tl (re_split user_pattern msg) \<noteq> []")
  case True
  then have "re_split user_pattern msg ! 1 \<noteq> []"
    by (rule split_lazy_group[where at=colon_at and n=2, OF match_user])
  with True show ?thesis by (simp add: extract_user_def Let_def)
next
  case False
  show ?thesis
  proof (cases "1 < length (re_split alt_pattern msg)")
    case True
    then have "tl (re_split alt_pattern msg) \<noteq> []"
      by (cases "re_split alt_pattern msg") auto
    then have "re_split alt_pattern msg ! 1 \<noteq> []"
      by (rule split_lazy_group[where at=dash_at and n=3, OF match_alt])
    with True False show ?thesis by (simp add: extract_user_def Let_def)
  next
    case no: False
    with False show ?thesis
      by (simp add: extract_user_def Let_def group_notification_nonempty)
  qed
qed

lemma extract_user_colon_sender:
  assumes "1 \<le> k" "colon_at msg k" "\<And>j. 1 \<le> j \<Longrightarrow> j < k \<Longrightarrow> \<not> colon_at msg j"
  shows "fst (extract_user msg) = take k msg"
proof -
  from split_lazy_sender[where at=colon_at and n=2, OF match_user colon_at_bound assms]
  obtain rest where "re_split user_pattern msg = [] # take k msg # rest" by blast
  then show ?thesis by (simp add: extract_user_def)
qed

lemma extract_user_dash_sender:
  assumes "\<And>j. 1 \<le> j \<Longrightarrow> \<not> colon_at msg j"
    and "1 \<le> k" "dash_at msg k" "\<And>j. 1 \<le> j \<Longrightarrow> j < k \<Longrightarrow> \<not> dash_at msg j"
  shows "fst (extract_user msg) = take k msg"
proof -
  have u: "re_split user_pattern msg = [msg]"
    using assms(1) by (intro split_lazy_none[where at=colon_at and n=2, OF match_user colon_at_drop]) auto
  from split_lazy_sender[where at=dash_at and n=3, OF match_alt dash_at_bound assms(2,3,4)]
  obtain rest where "re_split alt_pattern msg = [] # take k msg # rest" by blast
  with u show ?thesis by (simp add: extract_user_def)
qed

lemma extract_user_notification:
  assumes "\<And>j. 1 \<le> j \<Longrightarrow> \<not> colon_at msg j" "\<And>j. 1 \<le> j \<Longrightarrow> \<not> dash_at msg j"
  shows "extract_user msg = (group_notification, strip msg)"
proof -
  have u: "re_split user_pattern msg = [msg]"
    using assms(1) by (intro split_lazy_none[where at=colon_at and n=2, OF match_user colon_at_drop]) auto
  have a: "re_split alt_pattern msg = [msg]"
    using assms(2) by (intro split_lazy_none[where at=dash_at and n=3, OF match_alt dash_at_drop]) auto
  from u a show ?thesis by (simp add: extract_user_def)
qed

section \<open>Sender and body\<close>

text \<open>
  Claim C3, as amended.  Let a colon delimiter be a colon followed by whitespace, and a
  dash delimiter a hyphen, en dash or em dash between two whitespace characters.  When
  the first colon delimiter that has at least one character before it stands at index
  \<open>k\<close>, the sender is the first \<open>k\<close> characters; and the body is the text after the
  delimiter when that text holds no further colon delimiter with a character before
  it.  When there is no such colon delimiter, the same holds for the first dash
  delimiter.  When there is neither, the sender is the sentinel and the body is the
  trimmed message.
\<close>

theorem sender_body_extraction:
  "(1 \<le> k \<and> colon_at msg k \<and> (\<forall>j. 1 \<le> j \<and> j < k \<longrightarrow> \<not> colon_at msg j)
     \<longrightarrow> fst (extract_user msg) = take k msg
         \<and> ((\<forall>j. 1 \<le> j \<longrightarrow> \<not> colon_at (drop (k + 2) msg) j)
              \<longrightarrow> snd (extract_user msg) = drop (k + 2) msg))
   \<and> ((\<forall>j. 1 \<le> j \<longrightarrow> \<not> colon_at msg j)
      \<and> 1 \<le> k \<and> dash_at msg k \<and> (\<forall>j. 1 \<le> j \<and> j < k \<longrightarrow> \<not> dash_at msg j)
     \<longrightarrow> fst (extract_user msg) = take k msg
         \<and> ((\<forall>j. 1 \<le> j \<longrightarrow> \<not> dash_at (drop (k + 3) msg) j)
              \<longrightarrow> snd (extract_user msg) = drop (k + 3) msg))
   \<and> ((\<forall>j. 1 \<le> j \<longrightarrow> \<not> colon_at msg j) \<and> (\<forall>j. 1 \<le> j \<longrightarrow> \<not> dash_at msg j)
     \<longrightarrow> extract_user msg = (group_notification, strip msg))"
proof (intro conjI impI)
  assume h: "1 \<le> k \<and> colon_at msg k \<and> (\<forall>j. 1 \<le> j \<and> j < k \<longrightarrow> \<not> colon_at msg j)"
  then show "fst (extract_user msg) = take k msg"
    by (intro extract_user_colon_sender) auto
  assume r: "\<forall>j. 1 \<le> j \<longrightarrow> \<not> colon_at (drop (k + 2) msg) j"
  have "re_split user_pattern msg = [[], take k msg, drop (k + 2) msg]"
    using h r
    by (intro split_lazy_first[where at=colon_at and n=2, OF match_user colon_at_drop colon_at_bound])
       auto
  then show "snd (extract_user msg) = drop (k + 2) msg"
    by (simp add: extract_user_def)
next
  assume h: "(\<forall>j. 1 \<le> j \<longrightarrow> \<not> colon_at msg j)
      \<and> 1 \<le> k \<and> dash_at msg k \<and> (\<forall>j. 1 \<le> j \<and> j < k \<longrightarrow> \<not> dash_at msg j)"
  then show "fst (extract_user msg) = take k msg"
    by (intro extract_user_dash_sender) auto
  assume r: "\<forall>j. 1 \<le> j \<longrightarrow> \<not> dash_at (drop (k + 3) msg) j"
  have u: "re_split user_pattern msg = [msg]"
    using h by (intro split_lazy_none[where at=colon_at and n=2, OF match_user colon_at_drop]) auto
  have "re_split alt_pattern msg = [[], take k msg, drop (k + 3) msg]"
    using h r
    by (intro split_lazy_first[where at=dash_at and n=3, OF match_alt dash_at_drop dash_at_bound])
       auto
  with u show "snd (extract_user msg) = drop (k + 3) msg"
    by (simp add: extract_user_def)
next
  assume "(\<forall>j. 1 \<le> j \<longrightarrow> \<not> colon_at msg j) \<and> (\<forall>j. 1 \<le> j \<longrightarrow> \<not> dash_at msg j)"
  then show "extract_user msg = (group_notification, strip msg)"
    by (intro extract_user_notification) auto
qed

lemma colon_at_iff: "colon_at s j \<longleftrightarrow> j \<in> set (filter (colon_at s) [0..<length s])"
  by (auto simp: colon_at_def)

lemma dash_at_iff: "dash_at s j \<longleftrightarrow> j \<in> set (filter (dash_at s) [0..<length s])"
  by (auto simp: dash_at_def)

text \<open>
  A message that begins with a colon delimiter has no sender before it and becomes a
  notification; a body with a further colon delimiter is cut there and joined with a
  blank.
\<close>

theorem sender_body_counterexample:
  "extract_user (str '': hi'') = (group_notification, str '': hi'')
   \<and> extract_user (str '': hi'') \<noteq> ([], str ''hi'')
   \<and> extract_user (str ''Alice: see this: ok'') = (str ''Alice'', str '' see this ok'')
   \<and> extract_user (str ''Alice: see this: ok'') \<noteq> (str ''Alice'', str ''see this: ok'')"
  by code_simp

theorem sender_body_extraction_witness:
  "extract_user (str ''Alice: hi'') = (str ''Alice'', str ''hi'')
   \<and> fst (extract_user (str ''Alice: see this: ok'')) = str ''Alice''
   \<and> extract_user (str ''Bob - left'') = (str ''Bob'', str ''left'')
   \<and> extract_user (str '' joined '') = (group_notification, str ''joined'')"
proof -
  let ?a = "str ''Alice: hi''" and ?b = "str ''Bob - left''" and ?c = "str '' joined ''"
  let ?d = "str ''Alice: see this: ok''"
  have ca: "filter (colon_at ?a) [0..<length ?a] = [5]" by code_simp
  have ra: "filter (colon_at (drop (5 + 2) ?a)) [0..<length (drop (5 + 2) ?a)] = []" by code_simp
  have cb: "filter (colon_at ?b) [0..<length ?b] = []" by code_simp
  have db: "filter (dash_at ?b) [0..<length ?b] = [3]" by code_simp
  have rb: "filter (dash_at (drop (3 + 3) ?b)) [0..<length (drop (3 + 3) ?b)] = []" by code_simp
  have cc: "filter (colon_at ?c) [0..<length ?c] = []" by code_simp
  have dc: "filter (dash_at ?c) [0..<length ?c] = []" by code_simp
  have cd: "filter (colon_at ?d) [0..<length ?d] = [5, 15]" by code_simp
  have a1: "colon_at ?a j \<longleftrightarrow> j = 5" for j
    using colon_at_iff[of ?a j] by (simp only: ca) simp
  have a2: "\<not> colon_at (drop (5 + 2) ?a) j" for j
    using colon_at_iff[of "drop (5 + 2) ?a" j] by (simp only: ra) simp
  have b0: "\<not> colon_at ?b j" for j
    using colon_at_iff[of ?b j] by (simp only: cb) simp
  have b1: "dash_at ?b j \<longleftrightarrow> j = 3" for j
    using dash_at_iff[of ?b j] by (simp only: db) simp
  have b2: "\<not> dash_at (drop (3 + 3) ?b) j" for j
    using dash_at_iff[of "drop (3 + 3) ?b" j] by (simp only: rb) simp
  have c1: "\<not> colon_at ?c j" for j
    using colon_at_iff[of ?c j] by (simp only: cc) simp
  have c2: "\<not> dash_at ?c j" for j
    using dash_at_iff[of ?c j] by (simp only: dc) simp
  have d1: "colon_at ?d j \<longleftrightarrow> j = 5 \<or> j = 15" for j
    using colon_at_iff[of ?d j] by (simp only: cd) simp
  have "fst (extract_user ?a) = take 5 ?a \<and> snd (extract_user ?a) = drop (5 + 2) ?a"
    using sender_body_extraction[of 5 ?a] a1 a2 by simp
  moreover have "take 5 ?a = str ''Alice''" "drop (5 + 2) ?a = str ''hi''" by code_simp+
  ultimately have A: "extract_user ?a = (str ''Alice'', str ''hi'')"
    by (simp add: prod_eq_iff)
  have "fst (extract_user ?b) = take 3 ?b \<and> snd (extract_user ?b) = drop (3 + 3) ?b"
    using sender_body_extraction[of 3 ?b] b0 b1 b2 by simp
  moreover have "take 3 ?b = str ''Bob''" "drop (3 + 3) ?b = str ''left''" by code_simp+
  ultimately have B: "extract_user ?b = (str ''Bob'', str ''left'')"
    by (simp add: prod_eq_iff)
  have "extract_user ?c = (group_notification, strip ?c)"
    using sender_body_extraction[of 0 ?c] c1 c2 by simp
  moreover have "strip ?c = str ''joined''" by code_simp
  ultimately have C: "extract_user ?c = (group_notification, str ''joined'')" by simp
  have "fst (extract_user ?d) = take 5 ?d"
    using sender_body_extraction[of 5 ?d] d1 by simp
  moreover have "take 5 ?d = str ''Alice''" by code_simp
  ultimately have D: "fst (extract_user ?d) = str ''Alice''" by simp
  from A B C D show ?thesis by blast
qed

section \<open>Lemmas on the phone prefix\<close>

lemma no_digit_run_low:
  "c < 1632 \<Longrightarrow> filter (\<lambda>z. z \<le> c \<and> c < z + 10) nd_zeros = []"
  by (simp add: nd_zeros_def)

lemma no_digit_run_mid:
  "4250 \<le> c \<Longrightarrow> c < 6112 \<Longrightarrow> filter (\<lambda>z. z \<le> c \<and> c < z + 10) nd_zeros = []"
  by (simp add: nd_zeros_def)

lemma no_digit_run_high:
  "7258 \<le> c \<Longrightarrow> c < 42528 \<Longrightarrow> filter (\<lambda>z. z \<le> c \<and> c < z + 10) nd_zeros = []"
  by (simp add: nd_zeros_def)

lemma digit_not_space: "is_digit c \<Longrightarrow> \<not> is_space c"
proof
  assume dg: "is_digit c" and sp: "is_space c"
  show False
  proof (cases "c < 128")
    case True
    with dg have "48 \<le> c \<and> c \<le> 57"
      by (simp add: is_digit_def digit_value_def split: if_splits)
    with True sp show False by (simp add: is_space_def)
  next
    case False
    with sp have "c < 1632 \<or> (4250 \<le> c \<and> c < 6112) \<or> (7258 \<le> c \<and> c < 42528)"
      by (auto simp: is_space_def)
    then have "filter (\<lambda>z. z \<le> c \<and> c < z + 10) nd_zeros = []"
      using no_digit_run_low no_digit_run_mid no_digit_run_high by blast
    with False have "\<not> is_digit c" by (simp add: is_digit_def digit_value_def)
    with dg show False by simp
  qed
qed

lemma ends_digit:
  "ends (OneOf [Digit]) (caps, i, s)
     = (case s of [] \<Rightarrow> [] | c # cs \<Rightarrow> if is_digit c then [(caps, i + 1, cs)] else [])"
  by (simp add: in_set_def split: list.splits)

lemma ends_ws:
  "ends ws (caps, i, s)
     = (case s of [] \<Rightarrow> [] | w # rest \<Rightarrow> if is_space w then [(caps, i + 1, rest)] else [])"
  by (simp add: ws_def in_set_def split: list.splits)

lemma concat_ends_eps: "concat (map (ends Eps) xs) = xs"
  by (induction xs) simp_all

lemma ends_seq_eps: "ends (Seq r Eps) st = ends r st"
  by (simp add: concat_ends_eps)

lemma greedy_digits_then_space:
  "length s \<le> n \<Longrightarrow>
   concat (map (ends ws) (rep (ends (OneOf [Digit])) True 0 n (caps, i, s)))
     = (case dropWhile is_digit s of
          [] \<Rightarrow> []
        | w # rest \<Rightarrow>
            if is_space w then [(caps, i + length (takeWhile is_digit s) + 1, rest)] else [])"
proof (induction n arbitrary: i s)
  case 0
  then show ?case by (simp add: ends_ws)
next
  case (Suc n)
  define f where "f = ends (OneOf [Digit])"
  define R where "R = (\<lambda>i s. case dropWhile is_digit s of
          [] \<Rightarrow> []
        | w # rest \<Rightarrow>
            if is_space w then [(caps, i + length (takeWhile is_digit s) + 1, rest)] else [])"
  have IH: "concat (map (ends ws) (rep f True 0 n (caps, i + 1, cs))) = R (i + 1) cs"
    if "length cs \<le> n" for cs
    unfolding f_def R_def by (rule Suc.IH[OF that])
  have "concat (map (ends ws) (rep f True 0 (Suc n) (caps, i, s))) = R i s"
  proof (cases s)
    case Nil
    have "f (caps, i, []) = []" by (simp add: f_def)
    then show ?thesis by (simp add: Nil R_def ends_ws del: ends.simps)
  next
    case (Cons c cs)
    with Suc.prems have len: "length cs \<le> n" by simp
    show ?thesis
    proof (cases "is_digit c")
      case True
      then have nsp: "\<not> is_space c" by (rule digit_not_space)
      have fc: "f (caps, i, c # cs) = [(caps, i + 1, cs)]"
        using True by (simp add: f_def ends_digit del: ends.simps)
      have "rep f True 0 (Suc n) (caps, i, c # cs)
              = rep f True 0 n (caps, i + 1, cs) @ [(caps, i, c # cs)]"
        by (simp add: fc del: ends.simps)
      then have "concat (map (ends ws) (rep f True 0 (Suc n) (caps, i, c # cs)))
              = concat (map (ends ws) (rep f True 0 n (caps, i + 1, cs)))"
        using nsp by (simp add: ends_ws del: ends.simps)
      also note IH[OF len]
      also have "R (i + 1) cs = R i (c # cs)"
        using True by (cases "dropWhile is_digit cs") (simp_all add: R_def del: dropWhile_eq_Nil_conv)
      finally show ?thesis by (simp only: Cons)
    next
      case False
      have fc: "f (caps, i, c # cs) = []"
        using False by (simp add: f_def ends_digit del: ends.simps)
      have "rep f True 0 (Suc n) (caps, i, c # cs) = [(caps, i, c # cs)]"
        by (simp add: fc del: ends.simps)
      moreover have "R i (c # cs) = ends ws (caps, i, c # cs)"
        using False by (simp add: R_def ends_ws)
      ultimately show ?thesis by (simp add: Cons del: ends.simps rep.simps)
    qed
  qed
  then show ?case by (simp only: f_def R_def)
qed

lemma ends_phone:
  "ends phone_pattern (caps, i, s)
     = (if i = 0 then
          (case s of
             [] \<Rightarrow> []
           | c # cs \<Rightarrow>
               if c = 43 then
                 concat (map (ends ws)
                   (rep (ends (OneOf [Digit])) True 1 (length cs) (caps, 1, cs)))
               else [])
        else [])"
proof -
  have p: "phone_pattern
             = Seq Bol (Seq (OneOf [Lit 43]) (Seq (Rep (OneOf [Digit]) 1 None True) (Seq ws Eps)))"
    by (simp add: phone_pattern_def seq_def chr_def)
  define tail where "tail = Seq (Rep (OneOf [Digit]) 1 None True) (Seq ws Eps)"
  have t: "ends tail (caps, j, cs)
             = concat (map (ends ws) (rep (ends (OneOf [Digit])) True 1 (length cs) (caps, j, cs)))"
    for j cs
  proof -
    have "ends tail (caps, j, cs)
            = concat (map (ends (Seq ws Eps)) (ends (Rep (OneOf [Digit]) 1 None True) (caps, j, cs)))"
      by (simp only: tail_def ends.simps)
    also have "ends (Seq ws Eps) = ends ws"
      by (rule ext) (rule ends_seq_eps)
    also have "ends (Rep (OneOf [Digit]) 1 None True) (caps, j, cs)
                 = rep (ends (OneOf [Digit])) True 1 (length cs) (caps, j, cs)"
      by (simp del: rep.simps)
    finally show ?thesis .
  qed
  have "ends (Seq Bol (Seq (OneOf [Lit 43]) tail)) (caps, i, s)
     = (if i = 0 then
          (case s of
             [] \<Rightarrow> []
           | c # cs \<Rightarrow> if c = 43 then ends tail (caps, 1, cs) else [])
        else [])"
    by (simp add: in_set_def split: list.splits)
  then show ?thesis by (simp only: p tail_def[symmetric] t)
qed

lemma match_phone:
  "match_at phone_pattern i s =
     (if i = 0 then map_option (\<lambda>n. ([], n)) (phone_prefix s) else None)"
proof (cases "i = 0")
  case False
  then show ?thesis by (simp add: match_at_def ends_phone)
next
  case True
  show ?thesis
  proof (cases s)
    case Nil
    then show ?thesis by (simp add: True match_at_def ends_phone phone_prefix_def)
  next
    case (Cons c cs)
    show ?thesis
    proof (cases "c = 43")
      case False
      then show ?thesis by (simp add: True Cons match_at_def ends_phone phone_prefix_def)
    next
      case plus: True
      define f where "f = ends (OneOf [Digit])"
      have e: "ends phone_pattern ([], 0, c # cs)
                 = concat (map (ends ws) (rep f True 1 (length cs) ([], 1, cs)))"
        by (simp add: plus ends_phone f_def del: ends.simps rep.simps)
      show ?thesis
      proof (cases cs)
        case Nil
        with e show ?thesis
          by (simp add: True \<open>s = c # cs\<close> plus match_at_def phone_prefix_def del: ends.simps)
      next
        case (Cons d ds)
        show ?thesis
        proof (cases "is_digit d")
          case False
          have "f ([], 1, d # ds) = []"
            using False by (simp add: f_def ends_digit del: ends.simps)
          then have "rep f True 1 (length cs) ([], 1, cs) = []"
            by (simp add: Cons del: ends.simps)
          with e False show ?thesis
            by (simp add: True \<open>s = c # cs\<close> Cons plus match_at_def phone_prefix_def
                  del: ends.simps rep.simps)
        next
          case dg: True
          have "f ([], 1, d # ds) = [([], 2, ds)]"
            using dg by (simp add: f_def ends_digit del: ends.simps)
          then have "rep f True 1 (length cs) ([], 1, cs) = rep f True 0 (length ds) ([], 2, ds)"
            by (simp add: Cons del: ends.simps)
          with e have en: "ends phone_pattern ([], 0, c # cs)
                 = (case dropWhile is_digit ds of
                      [] \<Rightarrow> []
                    | w # rest \<Rightarrow>
                        if is_space w then [([], 2 + length (takeWhile is_digit ds) + 1, rest)]
                        else [])"
            by (simp add: f_def greedy_digits_then_space del: ends.simps rep.simps)
          have s': "s = 43 # d # ds" by (simp add: \<open>s = c # cs\<close> Cons plus)
          have en': "ends phone_pattern ([], 0, 43 # d # ds)
                 = (case dropWhile is_digit ds of
                      [] \<Rightarrow> []
                    | w # rest \<Rightarrow>
                        if is_space w then [([], 2 + length (takeWhile is_digit ds) + 1, rest)]
                        else [])"
            using en by (simp only: plus Cons)
          show ?thesis
          proof (cases "dropWhile is_digit ds")
            case Nil
            with en' dg show ?thesis
              by (simp add: True s' plus match_at_def phone_prefix_def
                    del: ends.simps rep.simps dropWhile_eq_Nil_conv)
          next
            case (Cons w rest)
            with en' dg show ?thesis
              by (simp add: True s' plus match_at_def phone_prefix_def
                    del: ends.simps rep.simps dropWhile_eq_Nil_conv)
          qed
        qed
      qed
    qed
  qed
qed

lemma phone_prefix_bounds: "phone_prefix u = Some n \<Longrightarrow> 2 \<le> n \<and> n \<le> length u"
proof -
  assume a: "phone_prefix u = Some n"
  then obtain c cs where u: "u = c # cs" by (cases u) (auto simp: phone_prefix_def)
  from a u obtain w rest where d: "dropWhile is_digit cs = w # rest"
    and n: "n = length (takeWhile is_digit cs) + 2"
    by (auto simp: phone_prefix_def split: if_splits list.splits)
  have "length (takeWhile is_digit cs) + length (dropWhile is_digit cs) = length cs"
    by (metis length_append takeWhile_dropWhile_id)
  with d n u show ?thesis by simp
qed

lemma strip_phone_eq:
  "strip_phone s = (case phone_prefix s of None \<Rightarrow> s | Some n \<Rightarrow> drop n s)"
proof (cases "phone_prefix s")
  case None
  have "scan phone_pattern 0 0 s = []"
  proof (rule scan_no_match)
    fix p show "match_at phone_pattern (0 + p) (drop p s) = None"
      using None by (simp add: match_phone)
  qed
  with None show ?thesis by (simp add: strip_phone_def re_sub_def finditer_def)
next
  case (Some n)
  from phone_prefix_bounds[OF Some] have n: "2 \<le> n" "n \<le> length s" by simp_all
  have "scan phone_pattern 0 0 s = [(0, n, [])]"
  proof (rule scan_single)
    show "match_at phone_pattern 0 s = Some ([], n)" using Some by (simp add: match_phone)
    show "1 \<le> n" using n by simp
    show "s \<noteq> []" using n by auto
    fix p assume "n \<le> p" "p \<le> length s"
    with n show "match_at phone_pattern p (drop p s) = None" by (simp add: match_phone)
  qed
  with Some show ?thesis by (simp add: strip_phone_def re_sub_def finditer_def slice_def)
qed

lemma strip_phone_empty:
  "strip_phone u = [] \<longleftrightarrow> u = [] \<or> phone_prefix u = Some (length u)"
proof (cases "phone_prefix u")
  case None
  then show ?thesis by (simp add: strip_phone_eq)
next
  case (Some n)
  from phone_prefix_bounds[OF Some] have "2 \<le> n" "n \<le> length u" by simp_all
  with Some show ?thesis by (auto simp: strip_phone_eq)
qed

section \<open>Phone prefixes\<close>

text \<open>
  The sender \<open>+1 555 1234 Alice\<close> loses its plus sign, the first run of digits and one
  whitespace character, and nothing more.
\<close>

theorem phone_normalization_counterexample:
  "extract_user (str ''+1 555 1234 Alice: hi'') = (str ''+1 555 1234 Alice'', str ''hi'')
   \<and> strip_phone (str ''+1 555 1234 Alice'') \<noteq> str ''Alice''
   \<and> map_option (map user) (dataset (preprocess strict_library chat_phone))
         = Some [str ''555 1234 Alice'', str ''B'']"
  by code_simp

text \<open>
  Claim C7, as amended.  Stripping removes a leading plus sign, the digits that follow
  it and one whitespace character, when the sender starts that way, and nothing
  otherwise: the sender \<open>+1 555 1234 Alice\<close> becomes \<open>555 1234 Alice\<close>, and the sender
  \<open>+15551234 Alice\<close> becomes \<open>Alice\<close>.
\<close>

theorem phone_normalization:
  "strip_phone (str ''+1 555 1234 Alice'') = str ''555 1234 Alice''
   \<and> strip_phone (str ''+15551234 Alice'') = str ''Alice''
   \<and> (\<forall>s. strip_phone s = (case phone_prefix s of None \<Rightarrow> s | Some n \<Rightarrow> drop n s))"
proof (intro conjI allI)
  show "strip_phone (str ''+1 555 1234 Alice'') = str ''555 1234 Alice''" by code_simp
  show "strip_phone (str ''+15551234 Alice'') = str ''Alice''" by code_simp
  show "strip_phone s = (case phone_prefix s of None \<Rightarrow> s | Some n \<Rightarrow> drop n s)" for s
    by (rule strip_phone_eq)
qed

theorem phone_normalization_witness:
  "phone_prefix (str ''+1 555 1234 Alice'') = Some 3
   \<and> strip_phone (str ''+1 555 1234 Alice'') = drop 3 (str ''+1 555 1234 Alice'')"
proof -
  have p: "phone_prefix (str ''+1 555 1234 Alice'') = Some 3" by code_simp
  from phone_normalization
  have "strip_phone (str ''+1 555 1234 Alice'')
          = (case phone_prefix (str ''+1 555 1234 Alice'') of
               None \<Rightarrow> str ''+1 555 1234 Alice''
             | Some n \<Rightarrow> drop n (str ''+1 555 1234 Alice''))"
    by blast
  with p show ?thesis by simp
qed

section \<open>The rows of a returned dataset\<close>

lemma build_frame_rows:
  "build_frame lib data = (shown, Inr (Some df)) \<Longrightarrow> \<exists>dated. df = map build_row dated"
  by (auto simp: build_frame_def split: prod.splits option.splits sum.splits)

lemma parse_dates_non_null:
  "parse_dates lib df = (shown, Some dated) \<Longrightarrow> \<forall>rd\<in>set dated. snd rd \<noteq> None"
  by (auto simp: parse_dates_def dropna_date_def Let_def in_set_zip
           split: option.splits sum.splits if_splits)

lemma user_build_row:
  "user (build_row (r, d)) = strip_phone (fst (extract_user (user_message r)))"
  by (simp add: build_row_def split: prod.splits)

lemma preprocess_rows:
  assumes "preprocess lib data = (shown, Inr (Some df))" and "r \<in> set df"
  shows "\<exists>rr d. r = build_row (rr, d) \<and> date r \<noteq> None \<and> message r \<noteq> None"
proof -
  from preprocess_Some[OF assms(1)] obtain df0
    where bf: "build_frame lib data = (shown, Inr (Some df0))" and df: "df = dropna df0"
    by blast
  from build_frame_rows[OF bf] obtain dated where "df0 = map build_row dated" by blast
  with df assms(2) obtain rd where "r = build_row rd" "date r \<noteq> None" "message r \<noteq> None"
    by (auto simp: dropna_def)
  then show ?thesis by (cases rd) auto
qed

text \<open>
  A sender that is a phone prefix and nothing else is stripped to the empty string, and
  its row is returned.
\<close>

theorem sender_counterexample:
  "map_option (map user) (dataset (preprocess strict_library chat_phone_only)) = Some [[], str ''B'']"
  by code_simp

lemma parse_dates_rows:
  assumes "parse_dates lib df = (shown, Some dated)" "(rr, d) \<in> set dated"
  shows "rr \<in> set df \<and> (\<exists>t. d = Some t)"
proof (cases "try_formats lib date_patterns (map message_date df)")
  case (Some ds)
  with assms(1) have "dated = zip df (map Some ds)"
    by (simp add: parse_dates_def split: if_splits)
  with assms(2) have "rr \<in> set df" "d \<in> set (map Some ds)"
    by (auto dest: set_zip_leftD set_zip_rightD)
  then show ?thesis by auto
next
  case None
  with assms(1) obtain parsed where
    "dated = dropna_date (zip df (map parsed [0..<length df]))"
    by (auto simp: parse_dates_def Let_def split: sum.splits if_splits)
  with assms(2) have "(rr, d) \<in> set (zip df (map parsed [0..<length df]))" "d \<noteq> None"
    by (auto simp: dropna_date_def)
  then show ?thesis by (auto dest: set_zip_leftD)
qed

lemma build_frame_extracted:
  assumes "build_frame lib data = (shown, Inr (Some df))"
  shows "\<exists>dated. df = map build_row dated
           \<and> (\<forall>rd\<in>set dated. fst rd \<in> set (extracted_rows data) \<and> (\<exists>t. snd rd = Some t))"
proof -
  obtain s1 pat f nm where df: "detect_format data = (s1, (pat, f, nm))"
    by (cases "detect_format data") auto
  obtain s2 em where em: "extract_messages pat data = (s2, em)"
    by (cases "extract_messages pat data") auto
  from assms df em obtain messages dates where md: "em = Some (messages, dates)"
    by (cases em) (auto simp: build_frame_def)
  from assms df em md obtain fr where fr: "data_frame messages dates = Inr fr"
    by (cases "data_frame messages dates") (auto simp: build_frame_def)
  obtain s3 pd where pd: "parse_dates lib fr = (s3, pd)" by (cases "parse_dates lib fr") auto
  from assms df em md fr pd obtain dated where dt: "pd = Some dated" "df = map build_row dated"
    by (cases pd) (auto simp: build_frame_def)
  have ex: "extracted_rows data = fr"
    by (simp add: extracted_rows_def df em md fr)
  have "fst rd \<in> set fr \<and> (\<exists>t. snd rd = Some t)" if "rd \<in> set dated" for rd
    using parse_dates_rows[of lib fr s3 dated "fst rd" "snd rd"] pd dt(1) that by simp
  with dt(2) ex show ?thesis by auto
qed

lemma preprocess_extracted:
  assumes "preprocess lib data = (shown, Inr (Some df))" and "r \<in> set df"
  shows "\<exists>rr t. rr \<in> set (extracted_rows data) \<and> r = build_row (rr, Some t)"
proof -
  from preprocess_Some[OF assms(1)] obtain df0
    where bf: "build_frame lib data = (shown, Inr (Some df0))" and df: "df = dropna df0"
    by blast
  from build_frame_extracted[OF bf] obtain dated where d: "df0 = map build_row dated"
    and e: "\<And>rd. rd \<in> set dated \<Longrightarrow> fst rd \<in> set (extracted_rows data) \<and> (\<exists>t. snd rd = Some t)"
    by blast
  from df d assms(2) obtain rd where rd: "rd \<in> set dated" "r = build_row rd"
    by (auto simp: dropna_def)
  from e[OF rd(1)] obtain t where "fst rd \<in> set (extracted_rows data)" "snd rd = Some t" by blast
  with rd(2) show ?thesis by (cases rd) auto
qed

lemma message_build_row:
  "message (build_row (r, d)) = Some (snd (extract_user (user_message r)))"
  by (simp add: build_row_def split: prod.splits)

lemma strip_phone_sentinel: "strip_phone group_notification = group_notification"
  by code_simp

text \<open>
  Claim C8, as amended.  Every row of a returned dataset is built from a row of the
  initial frame, that is, from a message of the transcript: its sender is the sender
  extracted from that message with the phone prefix stripped, and its body is the body
  extracted from that message.  The extracted sender is never empty; when the message
  has neither a colon delimiter nor a dash delimiter with a character before it, the
  extracted sender is the sentinel, and so is the row's sender.  The row's sender is
  empty exactly when the sender extracted from its message is a phone prefix and
  nothing else.
\<close>

theorem sender_before_stripping:
  "preprocess lib data = (shown, Inr (Some df)) \<longrightarrow>
     (\<forall>r\<in>set df. \<exists>rr\<in>set (extracted_rows data). \<exists>t.
        r = build_row (rr, Some t)
        \<and> user r = strip_phone (fst (extract_user (user_message rr)))
        \<and> message r = Some (snd (extract_user (user_message rr)))
        \<and> fst (extract_user (user_message rr)) \<noteq> []
        \<and> ((\<forall>j. 1 \<le> j \<longrightarrow> \<not> colon_at (user_message rr) j)
             \<and> (\<forall>j. 1 \<le> j \<longrightarrow> \<not> dash_at (user_message rr) j)
            \<longrightarrow> fst (extract_user (user_message rr)) = group_notification
                \<and> user r = group_notification)
        \<and> (user r = [] \<longleftrightarrow>
             phone_prefix (fst (extract_user (user_message rr)))
               = Some (length (fst (extract_user (user_message rr))))))"
proof (intro impI ballI)
  fix r assume p: "preprocess lib data = (shown, Inr (Some df))" and r: "r \<in> set df"
  from preprocess_extracted[OF p r] obtain rr t
    where rr: "rr \<in> set (extracted_rows data)" and b: "r = build_row (rr, Some t)" by blast
  let ?m = "user_message rr"
  let ?u = "fst (extract_user ?m)"
  from b have u: "user r = strip_phone ?u" by (simp only: user_build_row)
  from b have m: "message r = Some (snd (extract_user ?m))"
    by (simp only: message_build_row)
  have ne: "?u \<noteq> []" by (rule extract_user_nonempty)
  have s: "?u = group_notification \<and> user r = group_notification"
    if "(\<forall>j. 1 \<le> j \<longrightarrow> \<not> colon_at ?m j) \<and> (\<forall>j. 1 \<le> j \<longrightarrow> \<not> dash_at ?m j)"
  proof -
    from that have "extract_user ?m = (group_notification, strip ?m)"
      by (intro extract_user_notification) auto
    then have "?u = group_notification" by simp
    with u show ?thesis by (simp add: strip_phone_sentinel)
  qed
  from u ne strip_phone_empty[of ?u]
  have e: "user r = [] \<longleftrightarrow> phone_prefix ?u = Some (length ?u)" by simp
  from rr b u m ne s e
  show "\<exists>rr\<in>set (extracted_rows data). \<exists>t.
        r = build_row (rr, Some t)
        \<and> user r = strip_phone (fst (extract_user (user_message rr)))
        \<and> message r = Some (snd (extract_user (user_message rr)))
        \<and> fst (extract_user (user_message rr)) \<noteq> []
        \<and> ((\<forall>j. 1 \<le> j \<longrightarrow> \<not> colon_at (user_message rr) j)
             \<and> (\<forall>j. 1 \<le> j \<longrightarrow> \<not> dash_at (user_message rr) j)
            \<longrightarrow> fst (extract_user (user_message rr)) = group_notification
                \<and> user r = group_notification)
        \<and> (user r = [] \<longleftrightarrow>
             phone_prefix (fst (extract_user (user_message rr)))
               = Some (length (fst (extract_user (user_message rr)))))"
    by blast
qed

theorem sender_before_stripping_witness:
  "(\<exists>rr t. rr \<in> set (extracted_rows chat_phone_only)
      \<and> build_row (row_p, Some (stamp 2023 1 5 1 15)) = build_row (rr, Some t)
      \<and> user (build_row (row_p, Some (stamp 2023 1 5 1 15)))
          = strip_phone (fst (extract_user (user_message rr)))
      \<and> fst (extract_user (user_message rr)) \<noteq> []
      \<and> phone_prefix (fst (extract_user (user_message rr)))
          = Some (length (fst (extract_user (user_message rr)))))
   \<and> (\<exists>rr t. rr \<in> set (extracted_rows chat_notice)
      \<and> build_row (row_n, Some (stamp 2023 1 5 1 15)) = build_row (rr, Some t)
      \<and> fst (extract_user (user_message rr)) = group_notification
      \<and> user (build_row (row_n, Some (stamp 2023 1 5 1 15))) = group_notification)"
proof -
  let ?r = "build_row (row_p, Some (stamp 2023 1 5 1 15))"
  let ?df = "map build_row [(row_p, Some (stamp 2023 1 5 1 15)),
                            (row_b, Some (stamp 2023 1 5 13 16))]"
  have p: "preprocess strict_library chat_phone_only = ([Success_chat_uploaded], Inr (Some ?df))"
    by code_simp
  have m: "?r \<in> set ?df" by simp
  have e: "user ?r = []" by code_simp
  from sender_before_stripping[of strict_library chat_phone_only "[Success_chat_uploaded]" ?df] p m
  obtain rr t where "rr \<in> set (extracted_rows chat_phone_only)" "?r = build_row (rr, Some t)"
    "user ?r = strip_phone (fst (extract_user (user_message rr)))"
    "fst (extract_user (user_message rr)) \<noteq> []"
    "user ?r = [] \<longleftrightarrow> phone_prefix (fst (extract_user (user_message rr)))
                        = Some (length (fst (extract_user (user_message rr))))"
    by blast
  with e have A: "\<exists>rr t. rr \<in> set (extracted_rows chat_phone_only)
      \<and> ?r = build_row (rr, Some t)
      \<and> user ?r = strip_phone (fst (extract_user (user_message rr)))
      \<and> fst (extract_user (user_message rr)) \<noteq> []
      \<and> phone_prefix (fst (extract_user (user_message rr)))
          = Some (length (fst (extract_user (user_message rr))))"
    by blast
  let ?n = "build_row (row_n, Some (stamp 2023 1 5 1 15))"
  let ?dn = "map build_row [(row_n, Some (stamp 2023 1 5 1 15)),
                            (row_b, Some (stamp 2023 1 5 13 16))]"
  let ?c = "user_message row_n"
  have pn: "preprocess strict_library chat_notice = ([Success_chat_uploaded], Inr (Some ?dn))"
    by code_simp
  have mn: "?n \<in> set ?dn" by simp
  have xn: "extracted_rows chat_notice = [row_n, row_b]" by code_simp
  have un: "user ?n \<noteq> strip_phone (fst (extract_user (user_message row_b)))" by code_simp
  have cc: "filter (colon_at ?c) [0..<length ?c] = []" by code_simp
  have dc: "filter (dash_at ?c) [0..<length ?c] = []" by code_simp
  have c1: "\<not> colon_at ?c j" for j
    using colon_at_iff[of ?c j] by (simp only: cc) simp
  have c2: "\<not> dash_at ?c j" for j
    using dash_at_iff[of ?c j] by (simp only: dc) simp
  from sender_before_stripping[of strict_library chat_notice "[Success_chat_uploaded]" ?dn] pn mn
  obtain rr t where n: "rr \<in> set (extracted_rows chat_notice)" "?n = build_row (rr, Some t)"
    "user ?n = strip_phone (fst (extract_user (user_message rr)))"
    "(\<forall>j. 1 \<le> j \<longrightarrow> \<not> colon_at (user_message rr) j)
       \<and> (\<forall>j. 1 \<le> j \<longrightarrow> \<not> dash_at (user_message rr) j)
     \<longrightarrow> fst (extract_user (user_message rr)) = group_notification
         \<and> user ?n = group_notification"
    by blast
  from n(1) n(3) un have "rr = row_n" by (auto simp: xn)
  with n(4) c1 c2 have "fst (extract_user (user_message rr)) = group_notification"
    "user ?n = group_notification" by blast+
  with n(1) n(2) have B: "\<exists>rr t. rr \<in> set (extracted_rows chat_notice)
      \<and> ?n = build_row (rr, Some t)
      \<and> fst (extract_user (user_message rr)) = group_notification
      \<and> user ?n = group_notification"
    by blast
  from A B show ?thesis by blast
qed

text \<open>A message whose body is empty is returned with the empty string as its body.\<close>

theorem validated_fields_counterexample:
  "map_option (map message) (dataset (preprocess strict_library chat_empty_body))
     = Some [Some (str ''x'' @ [10]), Some []]"
  by code_simp

text \<open>
  Claim C9, as amended.  In every row of a returned dataset the timestamp is not null
  and the body is not null; the body may be the empty string.
\<close>

theorem validated_fields:
  "preprocess lib data = (shown, Inr (Some df)) \<longrightarrow>
     (\<forall>r\<in>set df. date r \<noteq> None \<and> message r \<noteq> None)"
  using preprocess_rows[of lib data shown df] by blast

theorem validated_fields_witness:
  "date (build_row (row_a, Some (stamp 2023 1 5 1 15))) \<noteq> None
   \<and> message (build_row (row_a, Some (stamp 2023 1 5 1 15))) \<noteq> None
   \<and> date (build_row (row_b, Some (stamp 2023 1 5 13 16))) \<noteq> None
   \<and> message (build_row (row_b, Some (stamp 2023 1 5 13 16))) \<noteq> None"
proof -
  let ?df = "map build_row [(row_a, Some (stamp 2023 1 5 1 15)),
                            (row_b, Some (stamp 2023 1 5 13 16))]"
  have p: "preprocess strict_library chat_two = ([Success_chat_uploaded], Inr (Some ?df))"
    by code_simp
  have m: "build_row (row_a, Some (stamp 2023 1 5 1 15)) \<in> set ?df"
          "build_row (row_b, Some (stamp 2023 1 5 13 16)) \<in> set ?df"
    by simp_all
  from validated_fields[of strict_library chat_two "[Success_chat_uploaded]" ?df] p m
  show ?thesis by blast
qed

section \<open>Extraction failure\<close>

lemma starts_with_iff: "starts_with sep s \<longleftrightarrow> (\<exists>b. s = sep @ b)"
  by (induction sep s rule: starts_with.induct) auto

lemma split_once_cases:
  assumes "sep \<noteq> []"
  shows "(\<exists>a b. split_once sep s = [a, b] \<and> s = a @ sep @ b
            \<and> (\<forall>a' b'. s = a' @ sep @ b' \<longrightarrow> length a \<le> length a'))
         \<or> (split_once sep s = [s] \<and> (\<forall>a b. s \<noteq> a @ sep @ b))"
proof (induction s)
  case Nil
  with assms show ?case by simp
next
  case (Cons c cs)
  show ?case
  proof (cases "starts_with sep (c # cs)")
    case True
    then obtain b where b: "c # cs = sep @ b" by (auto simp: starts_with_iff)
    then have d: "drop (length sep) (c # cs) = b" by simp
    from True have "split_once sep (c # cs) = [[], drop (length sep) (c # cs)]"
      by (simp only: split_once.simps if_True)
    with d have "split_once sep (c # cs) = [[], b]" by (simp only:)
    moreover from b have "c # cs = [] @ sep @ b" by simp
    ultimately show ?thesis by fastforce
  next
    case False
    then have nostart: "\<And>b. c # cs \<noteq> sep @ b" by (simp add: starts_with_iff)
    from Cons.IH show ?thesis
    proof
      assume "\<exists>a b. split_once sep cs = [a, b] \<and> cs = a @ sep @ b
                \<and> (\<forall>a' b'. cs = a' @ sep @ b' \<longrightarrow> length a \<le> length a')"
      then obtain a b where s: "split_once sep cs = [a, b]" and e: "cs = a @ sep @ b"
        and mn: "\<And>a' b'. cs = a' @ sep @ b' \<Longrightarrow> length a \<le> length a'" by blast
      have "length (c # a) \<le> length a'" if d: "c # cs = a' @ sep @ b'" for a' b'
      proof (cases a')
        case Nil
        with d nostart show ?thesis by simp
      next
        case (Cons x xs)
        with d have "cs = xs @ sep @ b'" by simp
        from mn[OF this] Cons show ?thesis by simp
      qed
      moreover from False s have "split_once sep (c # cs) = [c # a, b]" by simp
      moreover from e have "c # cs = (c # a) @ sep @ b" by simp
      ultimately show ?thesis by blast
    next
      assume n: "split_once sep cs = [cs] \<and> (\<forall>a b. cs \<noteq> a @ sep @ b)"
      have "c # cs \<noteq> a' @ sep @ b'" for a' b'
      proof (cases a')
        case Nil
        with nostart show ?thesis by simp
      next
        case (Cons x xs)
        with n show ?thesis by auto
      qed
      moreover from False n have "split_once sep (c # cs) = [c # cs]" by simp
      ultimately show ?thesis by blast
    qed
  qed
qed

lemma block_parts_lengths: "length (fst (block_parts bs)) = length (snd (block_parts bs))"
  by (induction bs) (auto simp: Let_def split: prod.splits)

lemma those_empty_col: "to_datetime lib fmt [] = Some []"
  by (simp add: to_datetime_def)

lemma parse_dates_empty: "parse_dates lib [] = ([Error_failed_to_parse_dates], None)"
  by (simp add: parse_dates_def date_patterns_def those_empty_col)


lemma sep_nonempty: "str '' - '' \<noteq> []"
  by (simp add: str_def)

lemma block_parts_cut:
  assumes d: "block = a @ str '' - '' @ b"
    and mn: "\<And>a' b'. block = a' @ str '' - '' @ b' \<Longrightarrow> length a \<le> length a'"
  shows "block_parts (block # blocks)
           = ((a @ str '' - '') # fst (block_parts blocks), b # snd (block_parts blocks))"
proof -
  from split_once_cases[OF sep_nonempty, of block] d
  obtain a0 b0 where s: "split_once (str '' - '') block = [a0, b0]"
    and e: "block = a0 @ str '' - '' @ b0"
    and m0: "\<And>a' b'. block = a' @ str '' - '' @ b' \<Longrightarrow> length a0 \<le> length a'"
    by blast
  from mn[OF e] m0[OF d] have "length a0 = length a" by simp
  with d e have "a0 = a" "b0 = b" by auto
  with s show ?thesis by (simp add: Let_def split: prod.splits)
qed

lemma block_parts_skip:
  assumes "\<And>a' b'. block \<noteq> a' @ str '' - '' @ b'"
  shows "block_parts (block # blocks) = block_parts blocks"
proof -
  from split_once_cases[OF sep_nonempty, of block] assms
  have "split_once (str '' - '') block = [block]" by blast
  then show ?thesis by (simp add: Let_def split: prod.splits)
qed

lemma extract_messages_fallback:
  assumes "tl (re_split pat data) = [] \<or> re_findall pat data = []"
  shows "extract_messages pat data =
           ([Error_no_messages_extracted],
            if re_findall generic_pattern data = [] then None
            else Some (snd (block_parts (re_findall generic_pattern data)),
                       fst (block_parts (re_findall generic_pattern data))))"
  using assms by (auto simp: extract_messages_def Let_def split: prod.splits)

lemma no_messages_is_fatal:
  assumes e: "tl (re_split (fst (snd (detect_format data))) data) = []
              \<or> re_findall (fst (snd (detect_format data))) data = []"
    and n: "snd (block_parts (re_findall generic_pattern data)) = []"
  shows "\<exists>shown. preprocess lib data = (shown, Inr None) \<and> Error_no_messages_extracted \<in> set shown"
proof -
  obtain s1 pat f nm where df: "detect_format data = (s1, (pat, f, nm))"
    by (cases "detect_format data") auto
  let ?bp = "block_parts (re_findall generic_pattern data)"
  from e df have em: "extract_messages pat data =
           ([Error_no_messages_extracted],
            if re_findall generic_pattern data = [] then None else Some (snd ?bp, fst ?bp))"
    by (intro extract_messages_fallback) simp
  from n block_parts_lengths[of "re_findall generic_pattern data"] have f0: "fst ?bp = []" by simp
  have "build_frame lib data = (s1 @ [Error_no_messages_extracted], Inr None)
        \<or> build_frame lib data
             = (s1 @ [Error_no_messages_extracted] @ [Error_failed_to_parse_dates], Inr None)"
  proof (cases "re_findall generic_pattern data = []")
    case True
    with em df show ?thesis by (simp add: build_frame_def)
  next
    case False
    with em n f0 have "extract_messages pat data = ([Error_no_messages_extracted], Some ([], []))"
      by simp
    with df show ?thesis
      by (simp add: build_frame_def data_frame_def parse_dates_empty)
  qed
  then show ?thesis
    by (auto simp: preprocess_def preprocess_body_def except_Exception_def)
qed

text \<open>
  Claim C6.  When the split with the detected pattern gives no message or no
  timestamp, an error is shown and the permissive pattern collects candidate blocks;
  each block that contains the dash delimiter \<open>" - "\<close> is cut at its first occurrence
  into a timestamp (with the delimiter) and a message, and a block without it is left
  out.  When this gives no message, whether because there is no block or because no
  block has the delimiter, the entry point returns the failure signal, with the error
  about extraction among those shown, for every behaviour of the date library.
\<close>

theorem extraction_failure:
  "(tl (re_split pat data) = [] \<or> re_findall pat data = [] \<longrightarrow>
      extract_messages pat data =
        ([Error_no_messages_extracted],
         if re_findall generic_pattern data = [] then None
         else Some (snd (block_parts (re_findall generic_pattern data)),
                    fst (block_parts (re_findall generic_pattern data)))))
   \<and> (block = a @ str '' - '' @ b
        \<and> (\<forall>a' b'. block = a' @ str '' - '' @ b' \<longrightarrow> length a \<le> length a')
      \<longrightarrow> block_parts (block # blocks)
            = ((a @ str '' - '') # fst (block_parts blocks), b # snd (block_parts blocks)))
   \<and> ((\<forall>a' b'. block \<noteq> a' @ str '' - '' @ b')
      \<longrightarrow> block_parts (block # blocks) = block_parts blocks)
   \<and> ((tl (re_split (fst (snd (detect_format data))) data) = []
         \<or> re_findall (fst (snd (detect_format data))) data = [])
        \<and> snd (block_parts (re_findall generic_pattern data)) = []
      \<longrightarrow> (\<exists>shown. preprocess lib data = (shown, Inr None)
                    \<and> Error_no_messages_extracted \<in> set shown))"
proof (intro conjI impI)
  assume "tl (re_split pat data) = [] \<or> re_findall pat data = []"
  then show "extract_messages pat data =
        ([Error_no_messages_extracted],
         if re_findall generic_pattern data = [] then None
         else Some (snd (block_parts (re_findall generic_pattern data)),
                    fst (block_parts (re_findall generic_pattern data))))"
    by (rule extract_messages_fallback)
next
  assume "block = a @ str '' - '' @ b
        \<and> (\<forall>a' b'. block = a' @ str '' - '' @ b' \<longrightarrow> length a \<le> length a')"
  then show "block_parts (block # blocks)
            = ((a @ str '' - '') # fst (block_parts blocks), b # snd (block_parts blocks))"
    by (intro block_parts_cut) auto
next
  assume "\<forall>a' b'. block \<noteq> a' @ str '' - '' @ b'"
  then show "block_parts (block # blocks) = block_parts blocks"
    by (intro block_parts_skip) auto
next
  assume "(tl (re_split (fst (snd (detect_format data))) data) = []
         \<or> re_findall (fst (snd (detect_format data))) data = [])
        \<and> snd (block_parts (re_findall generic_pattern data)) = []"
  then show "\<exists>shown. preprocess lib data = (shown, Inr None)
                    \<and> Error_no_messages_extracted \<in> set shown"
    by (intro no_messages_is_fatal) auto
qed

lemma split_once_two:
  assumes "split_once (str '' - '') s = [a, b]"
  shows "s = a @ str '' - '' @ b
         \<and> (\<forall>a' b'. s = a' @ str '' - '' @ b' \<longrightarrow> length a \<le> length a')"
  using split_once_cases[OF sep_nonempty, of s] assms by auto

lemma split_once_one:
  assumes "split_once (str '' - '') s = [s']"
  shows "\<forall>a' b'. s \<noteq> a' @ str '' - '' @ b'"
  using split_once_cases[OF sep_nonempty, of s] assms by auto

theorem extraction_failure_witness:
  "extract_messages pattern_12h_1 chat_dashed
     = ([Error_no_messages_extracted], Some ([str ''hello: x''], [str ''5-1-2023 10:15 - '']))
   \<and> block_parts [str ''5-1-2023 10:15 - a - b'', str ''no dash'']
       = ([str ''5-1-2023 10:15 - ''], [str ''a - b''])
   \<and> (\<exists>shown. preprocess strict_library chat_plain = (shown, Inr None)
                \<and> Error_no_messages_extracted \<in> set shown)
   \<and> (\<exists>shown. preprocess strict_library chat_bracketed = (shown, Inr None)
                \<and> Error_no_messages_extracted \<in> set shown)"
proof -
  have h1: "tl (re_split pattern_12h_1 chat_dashed) = [] \<or> re_findall pattern_12h_1 chat_dashed = []"
    by code_simp
  have v1: "([Error_no_messages_extracted],
             if re_findall generic_pattern chat_dashed = [] then None
             else Some (snd (block_parts (re_findall generic_pattern chat_dashed)),
                        fst (block_parts (re_findall generic_pattern chat_dashed))))
            = ([Error_no_messages_extracted],
               Some ([str ''hello: x''], [str ''5-1-2023 10:15 - '']))"
    by code_simp
  from extraction_failure[where pat = pattern_12h_1 and data = chat_dashed] h1
  have "extract_messages pattern_12h_1 chat_dashed =
          ([Error_no_messages_extracted],
             if re_findall generic_pattern chat_dashed = [] then None
             else Some (snd (block_parts (re_findall generic_pattern chat_dashed)),
                        fst (block_parts (re_findall generic_pattern chat_dashed))))"
    by blast
  with v1 have A: "extract_messages pattern_12h_1 chat_dashed
     = ([Error_no_messages_extracted], Some ([str ''hello: x''], [str ''5-1-2023 10:15 - '']))"
    by (simp only:)
  have s2: "split_once (str '' - '') (str ''5-1-2023 10:15 - a - b'')
              = [str ''5-1-2023 10:15'', str ''a - b'']"
    by code_simp
  have s3: "split_once (str '' - '') (str ''no dash'') = [str ''no dash'']"
    by code_simp
  from extraction_failure[where block = "str ''no dash''" and blocks = "[]"] split_once_one[OF s3]
  have b3: "block_parts [str ''no dash''] = block_parts []" by blast
  from extraction_failure[where block = "str ''5-1-2023 10:15 - a - b''"
         and a = "str ''5-1-2023 10:15''" and b = "str ''a - b''" and blocks = "[str ''no dash'']"]
       split_once_two[OF s2]
  have "block_parts [str ''5-1-2023 10:15 - a - b'', str ''no dash'']
          = ((str ''5-1-2023 10:15'' @ str '' - '') # fst (block_parts [str ''no dash'']),
             str ''a - b'' # snd (block_parts [str ''no dash'']))"
    by blast
  with b3 have B: "block_parts [str ''5-1-2023 10:15 - a - b'', str ''no dash'']
       = ([str ''5-1-2023 10:15 - ''], [str ''a - b''])"
    by (simp add: str_def)
  have h4: "(tl (re_split (fst (snd (detect_format chat_plain))) chat_plain) = []
             \<or> re_findall (fst (snd (detect_format chat_plain))) chat_plain = [])
            \<and> snd (block_parts (re_findall generic_pattern chat_plain)) = []"
    by code_simp
  from extraction_failure[where data = chat_plain and lib = strict_library] h4
  have C: "\<exists>shown. preprocess strict_library chat_plain = (shown, Inr None)
                \<and> Error_no_messages_extracted \<in> set shown"
    by blast
  have h5: "(tl (re_split (fst (snd (detect_format chat_bracketed))) chat_bracketed) = []
             \<or> re_findall (fst (snd (detect_format chat_bracketed))) chat_bracketed = [])
            \<and> snd (block_parts (re_findall generic_pattern chat_bracketed)) = []"
    by code_simp
  from extraction_failure[where data = chat_bracketed and lib = strict_library] h5
  have D: "\<exists>shown. preprocess strict_library chat_bracketed = (shown, Inr None)
                \<and> Error_no_messages_extracted \<in> set shown"
    by blast
  from A B C D show ?thesis by blast
qed

section \<open>Exceptions\<close>












end
